theory Spec2Isabelle
  imports Main "HOL-Library.Word" "HOL-Library.AList"
begin

section \<open>Data model of the tomox order book\<close>

text \<open>
  The Go code works on pointers: an \<open>*Order\<close> is linked into an \<open>*OrderList\<close> through its
  \<open>NextOrder\<close>/\<open>PrevOrder\<close> fields, and the same objects are reachable from the maps of an
  \<open>OrderTree\<close>.  The embedding keeps the objects in an explicit heap: a reference is an
  address, a nullable pointer is a \<open>ref option\<close> (\<open>None\<close> is \<open>nil\<close>), and a dereference of
  \<open>nil\<close> makes the operation return \<open>None\<close> (the Go runtime panics there).

  Big integers (\<open>*big.Int\<close>) are modelled by their value, an \<open>int\<close>; the helpers \<open>Zero\<close>,
  \<open>Add\<close> and \<open>Sub\<close> are \<open>0\<close>, \<open>+\<close> and \<open>-\<close>.  The one place where the code compares two
  big-integer pointers by identity (\<open>price != order.Price\<close> in \<open>OrderTree.UpdateOrder\<close>) is
  kept: an order carries, next to the value of its price, the address \<open>PriceRef\<close> of the
  big-integer object that holds it.

  Only the fields that the matching code reads or writes are modelled.  Go's \<open>int\<close> counters
  (\<open>Len\<close>, \<open>NumOrders\<close>, \<open>Depth\<close>) change by one per order and are modelled by \<open>int\<close>;
  \<open>uint64\<close> fields are 64-bit words.
\<close>

type_synonym ref = nat

record Order =
  Quantity :: int
  Price :: int
  PriceRef :: nat
  Side :: string
  Type :: string
  UpdatedAt :: "64 word"
  OrderID :: "64 word"
  NextOrder :: "ref option"
  PrevOrder :: "ref option"
  OrderList :: "ref option"

record OrderList =
  HOrder :: "ref option"
  TOrder :: "ref option"
  Len :: int
  LVolume :: int
  LPrice :: int

record Heap =
  orders :: "ref \<Rightarrow> Order"
  lists :: "ref \<Rightarrow> OrderList"
  nextList :: ref

text \<open>
  The price tree is a red-black tree of an external library, ordered by
  \<open>decimalComparator\<close> (the numeric order of the prices).  It is modelled by its content, the
  key-value pairs in ascending key order, with the operations the code calls on it.
  Go maps are association lists; \<open>price.String()\<close> and \<open>strconv.FormatUint(id, 10)\<close> are
  injective, so the keys are the price and the order id themselves.
\<close>

type_synonym price_tree = "(int \<times> ref) list"

record OrderTree =
  PriceTree :: price_tree
  PriceMap :: "(int \<times> ref) list"
  OrderMap :: "(64 word \<times> ref) list"
  Volume :: int
  NumOrders :: int
  Depth :: int

record OrderBook =
  Bids :: OrderTree
  Asks :: OrderTree
  Time :: "64 word"
  NextOrderID :: "64 word"

text \<open>
  The store behind \<open>TomoXDao\<close> is an interface whose implementation is not part of the
  package; the outcome of the three writes of \<open>InsertOrder\<close> is a parameter.
\<close>

record TomoXDao =
  SaveOrder_ok :: bool
  SaveList_ok :: bool
  SaveTree_ok :: bool

record trade =
  timestamp :: "64 word"
  price :: int
  quantity :: int
  time :: "64 word"

text \<open>
  \<open>ProcessOrder\<close> returns either the incoming order (now resting in the book) or a pointer
  to a fresh zero-valued \<open>&Order{}\<close>, which is \<open>EmptyOrder\<close> here.
\<close>

datatype residual = EmptyOrder | InBook ref

definition Ask :: string where "Ask = ''SELL''"
definition Bid :: string where "Bid = ''BUY''"
definition Market :: string where "Market = ''market''"
definition Limit :: string where "Limit = ''limit''"

definition set_order :: "ref \<Rightarrow> (Order \<Rightarrow> Order) \<Rightarrow> Heap \<Rightarrow> Heap" where
  "set_order r f h = h\<lparr>orders := (orders h)(r := f (orders h r))\<rparr>"

definition set_list :: "ref \<Rightarrow> (OrderList \<Rightarrow> OrderList) \<Rightarrow> Heap \<Rightarrow> Heap" where
  "set_list r f h = h\<lparr>lists := (lists h)(r := f (lists h r))\<rparr>"

section \<open>The red-black tree of prices\<close>

fun Put :: "int \<Rightarrow> ref \<Rightarrow> price_tree \<Rightarrow> price_tree" where
  "Put k v [] = [(k, v)]"
| "Put k v ((k', v') # t) =
     (if k < k' then (k, v) # (k', v') # t
      else if k = k' then (k, v) # t
      else (k', v') # Put k v t)"

definition Remove :: "int \<Rightarrow> price_tree \<Rightarrow> price_tree" where
  "Remove k t = AList.delete k t"

definition GetMin :: "price_tree \<Rightarrow> ref option" where
  "GetMin t = (case t of [] \<Rightarrow> None | (k, v) # _ \<Rightarrow> Some v)"

definition GetMax :: "price_tree \<Rightarrow> ref option" where
  "GetMax t = (case rev t of [] \<Rightarrow> None | (k, v) # _ \<Rightarrow> Some v)"

section \<open>OrderList: the queue of one price\<close>

definition NewOrderList :: "int \<Rightarrow> OrderList" where
  "NewOrderList p = \<lparr>HOrder = None, TOrder = None, Len = 0, LVolume = 0, LPrice = p\<rparr>"

definition OrderList_Length :: "ref \<Rightarrow> Heap \<Rightarrow> int" where
  "OrderList_Length orderlist h = Len (lists h orderlist)"

definition HeadOrder :: "ref \<Rightarrow> Heap \<Rightarrow> ref option" where
  "HeadOrder orderlist h = HOrder (lists h orderlist)"

definition AppendOrder :: "ref \<Rightarrow> ref \<Rightarrow> Heap \<Rightarrow> Heap option" where
  "AppendOrder orderlist order h =
     (let linked =
        (if OrderList_Length orderlist h = 0 then
           Some (set_list orderlist (\<lambda>l. l\<lparr>HOrder := Some order, TOrder := Some order\<rparr>)
                  (set_order order (\<lambda>x. x\<lparr>NextOrder := None, PrevOrder := None\<rparr>) h))
         else
           (case TOrder (lists h orderlist) of
              None \<Rightarrow> None
            | Some t \<Rightarrow>
                Some (set_list orderlist (\<lambda>l. l\<lparr>TOrder := Some order\<rparr>)
                       (set_order t (\<lambda>x. x\<lparr>NextOrder := Some order\<rparr>)
                         (set_order order (\<lambda>x. x\<lparr>PrevOrder := Some t, NextOrder := None\<rparr>) h)))))
      in case linked of
           None \<Rightarrow> None
         | Some h1 \<Rightarrow>
             Some (set_list orderlist
                    (\<lambda>l. l\<lparr>Len := Len l + 1, LVolume := LVolume l + Quantity (orders h1 order)\<rparr>) h1))"

definition RemoveOrder :: "ref \<Rightarrow> ref \<Rightarrow> Heap \<Rightarrow> Heap" where
  "RemoveOrder orderlist order h =
     (let h1 = set_list orderlist
                 (\<lambda>l. l\<lparr>LVolume := LVolume l - Quantity (orders h order), Len := Len l - 1\<rparr>) h
      in if Len (lists h1 orderlist) = 0 then h1
         else
           (case NextOrder (orders h1 order) of
              Some nextOrder \<Rightarrow>
                (case PrevOrder (orders h1 order) of
                   Some prevOrder \<Rightarrow>
                     set_order prevOrder (\<lambda>x. x\<lparr>NextOrder := Some nextOrder\<rparr>)
                       (set_order nextOrder (\<lambda>x. x\<lparr>PrevOrder := Some prevOrder\<rparr>) h1)
                 | None \<Rightarrow>
                     set_list orderlist (\<lambda>l. l\<lparr>HOrder := Some nextOrder\<rparr>)
                       (set_order nextOrder (\<lambda>x. x\<lparr>PrevOrder := None\<rparr>) h1))
            | None \<Rightarrow>
                (case PrevOrder (orders h1 order) of
                   Some prevOrder \<Rightarrow>
                     set_list orderlist (\<lambda>l. l\<lparr>TOrder := Some prevOrder\<rparr>)
                       (set_order prevOrder (\<lambda>x. x\<lparr>NextOrder := None\<rparr>) h1)
                 | None \<Rightarrow> h1)))"

definition MoveToTail :: "ref \<Rightarrow> ref \<Rightarrow> Heap \<Rightarrow> Heap option" where
  "MoveToTail orderlist order h =
     (let h1 = (case PrevOrder (orders h order) of
                  Some p \<Rightarrow> set_order p (\<lambda>x. x\<lparr>NextOrder := NextOrder (orders h order)\<rparr>) h
                | None \<Rightarrow> set_list orderlist (\<lambda>l. l\<lparr>HOrder := NextOrder (orders h order)\<rparr>) h)
      in case NextOrder (orders h1 order) of
           None \<Rightarrow> None
         | Some n \<Rightarrow>
             (let h2 = set_order n (\<lambda>x. x\<lparr>PrevOrder := PrevOrder (orders h1 order)\<rparr>) h1
              in case TOrder (lists h2 orderlist) of
                   None \<Rightarrow> None
                 | Some t \<Rightarrow>
                     Some (set_list orderlist (\<lambda>l. l\<lparr>TOrder := Some order\<rparr>)
                            (set_order t (\<lambda>x. x\<lparr>NextOrder := Some order\<rparr>) h2))))"

definition UpdateQuantity :: "ref \<Rightarrow> int \<Rightarrow> 64 word \<Rightarrow> Heap \<Rightarrow> Heap option" where
  "UpdateQuantity order newQuantity newTimestamp h =
     (case OrderList (orders h order) of
        None \<Rightarrow> None
      | Some ol \<Rightarrow>
          (let moved =
             (if newQuantity > Quantity (orders h order) \<and> TOrder (lists h ol) \<noteq> Some order
              then MoveToTail ol order h else Some h)
           in case moved of
                None \<Rightarrow> None
              | Some h1 \<Rightarrow>
                  (case OrderList (orders h1 order) of
                     None \<Rightarrow> None
                   | Some ol1 \<Rightarrow>
                       Some (set_order order
                              (\<lambda>x. x\<lparr>UpdatedAt := newTimestamp, Quantity := newQuantity\<rparr>)
                              (set_list ol1
                                (\<lambda>l. l\<lparr>LVolume := LVolume l
                                                   - (Quantity (orders h1 order) - newQuantity)\<rparr>)
                                h1)))))"

section \<open>OrderTree: one side of the book\<close>

definition NewOrderTree :: OrderTree where
  "NewOrderTree = \<lparr>PriceTree = [], PriceMap = [], OrderMap = [],
                    Volume = 0, NumOrders = 0, Depth = 0\<rparr>"

definition OrderTree_Length :: "OrderTree \<Rightarrow> int" where
  "OrderTree_Length ordertree = int (length (OrderMap ordertree))"

definition PriceList :: "int \<Rightarrow> OrderTree \<Rightarrow> ref option" where
  "PriceList p ordertree = map_of (PriceMap ordertree) p"

definition CreatePrice :: "int \<Rightarrow> OrderTree \<Rightarrow> Heap \<Rightarrow> OrderTree \<times> Heap" where
  "CreatePrice p ordertree h =
     (let newList = nextList h
      in (ordertree\<lparr>Depth := Depth ordertree + 1,
                    PriceTree := Put p newList (PriceTree ordertree),
                    PriceMap := AList.update p newList (PriceMap ordertree)\<rparr>,
          h\<lparr>lists := (lists h)(newList := NewOrderList p), nextList := Suc newList\<rparr>))"

definition RemovePrice :: "int \<Rightarrow> OrderTree \<Rightarrow> OrderTree" where
  "RemovePrice p ordertree =
     ordertree\<lparr>Depth := Depth ordertree - 1,
               PriceTree := Remove p (PriceTree ordertree),
               PriceMap := AList.delete p (PriceMap ordertree)\<rparr>"

definition PriceExist :: "int \<Rightarrow> OrderTree \<Rightarrow> bool" where
  "PriceExist p ordertree = (map_of (PriceMap ordertree) p \<noteq> None)"

definition OrderExist :: "64 word \<Rightarrow> OrderTree \<Rightarrow> bool" where
  "OrderExist orderId ordertree = (map_of (OrderMap ordertree) orderId \<noteq> None)"

definition RemoveOrderById :: "64 word \<Rightarrow> OrderTree \<Rightarrow> Heap \<Rightarrow> (OrderTree \<times> Heap) option" where
  "RemoveOrderById orderId ordertree h =
     (let t1 = ordertree\<lparr>NumOrders := NumOrders ordertree - 1\<rparr>
      in case map_of (OrderMap t1) orderId of
           None \<Rightarrow> None
         | Some order \<Rightarrow>
             (let t2 = t1\<lparr>Volume := Volume t1 - Quantity (orders h order)\<rparr>
              in case OrderList (orders h order) of
                   None \<Rightarrow> None
                 | Some ol \<Rightarrow>
                     (let h1 = RemoveOrder ol order h;
                          t3 = (if OrderList_Length ol h1 = 0
                                then RemovePrice (Price (orders h1 order)) t2 else t2)
                      in Some (t3\<lparr>OrderMap := AList.delete orderId (OrderMap t3)\<rparr>, h1))))"

definition MaxPrice :: "OrderTree \<Rightarrow> Heap \<Rightarrow> int" where
  "MaxPrice ordertree h =
     (if Depth ordertree > 0 then
        (case GetMax (PriceTree ordertree) of
           Some l \<Rightarrow> LPrice (lists h l)
         | None \<Rightarrow> 0)
      else 0)"

definition MinPrice :: "OrderTree \<Rightarrow> Heap \<Rightarrow> int" where
  "MinPrice ordertree h =
     (if Depth ordertree > 0 then
        (case GetMin (PriceTree ordertree) of
           Some l \<Rightarrow> LPrice (lists h l)
         | None \<Rightarrow> 0)
      else 0)"

definition MaxPriceList :: "OrderTree \<Rightarrow> Heap \<Rightarrow> ref option" where
  "MaxPriceList ordertree h =
     (if Depth ordertree > 0 then map_of (PriceMap ordertree) (MaxPrice ordertree h) else None)"

definition MinPriceList :: "OrderTree \<Rightarrow> Heap \<Rightarrow> ref option" where
  "MinPriceList ordertree h =
     (if Depth ordertree > 0 then map_of (PriceMap ordertree) (MinPrice ordertree h) else None)"

text \<open>
  \<open>InsertOrder\<close> returns early when a write to the store fails; \<open>True\<close> in the result is the
  \<open>nil\<close> error.
\<close>

definition InsertOrder :: "TomoXDao \<Rightarrow> ref \<Rightarrow> OrderTree \<Rightarrow> Heap \<Rightarrow> (bool \<times> OrderTree \<times> Heap) option" where
  "InsertOrder db quote ordertree h =
     (let orderID = OrderID (orders h quote)
      in case (if OrderExist orderID ordertree then RemoveOrderById orderID ordertree h
               else Some (ordertree, h)) of
           None \<Rightarrow> None
         | Some (t1, h1) \<Rightarrow>
             (let t2 = t1\<lparr>NumOrders := NumOrders t1 + 1\<rparr>;
                  p = Price (orders h1 quote);
                  (t3, h3) = (if \<not> PriceExist p t2 then CreatePrice p t2 h1 else (t2, h1))
              in case map_of (PriceMap t3) p of
                   None \<Rightarrow> None
                 | Some orderlist \<Rightarrow>
                     (let h4 = set_order quote (\<lambda>x. x\<lparr>OrderList := Some orderlist\<rparr>) h3
                      in case AppendOrder orderlist quote h4 of
                           None \<Rightarrow> None
                         | Some h5 \<Rightarrow>
                             if \<not> SaveOrder_ok db then Some (False, t3, h5)
                             else if \<not> SaveList_ok db then Some (False, t3, h5)
                             else
                               Some (SaveTree_ok db,
                                     t3\<lparr>OrderMap := AList.update orderID quote (OrderMap t3),
                                        Volume := Volume t3 + Quantity (orders h5 quote)\<rparr>,
                                     h5))))"

definition UpdateOrder :: "TomoXDao \<Rightarrow> ref \<Rightarrow> OrderTree \<Rightarrow> Heap \<Rightarrow> (OrderTree \<times> Heap) option" where
  "UpdateOrder db quote ordertree h =
     (case map_of (OrderMap ordertree) (OrderID (orders h quote)) of
        None \<Rightarrow> None
      | Some order \<Rightarrow>
          (let originalQuantity = Quantity (orders h order);
               p = Price (orders h quote);
               changed =
                 (if PriceRef (orders h quote) \<noteq> PriceRef (orders h order) then
                    (case map_of (PriceMap ordertree) (Price (orders h order)) of
                       None \<Rightarrow> None
                     | Some orderList \<Rightarrow>
                         (let h1 = RemoveOrder orderList order h;
                              t1 = (if OrderList_Length orderList h1 = 0
                                    then RemovePrice p ordertree else ordertree)
                          in case InsertOrder db quote t1 h1 of
                               None \<Rightarrow> None
                             | Some (err, t2, h2) \<Rightarrow> Some (t2, h2)))
                  else
                    (case UpdateQuantity order (Quantity (orders h quote))
                            (UpdatedAt (orders h quote)) h of
                       None \<Rightarrow> None
                     | Some h1 \<Rightarrow> Some (ordertree, h1)))
           in case changed of
                None \<Rightarrow> None
              | Some (t3, h3) \<Rightarrow>
                  Some (t3\<lparr>Volume := Volume t3 + (Quantity (orders h3 order) - originalQuantity)\<rparr>,
                        h3)))"

section \<open>OrderBook: the matching engine\<close>

definition NewOrderBook :: OrderBook where
  "NewOrderBook = \<lparr>Bids = NewOrderTree, Asks = NewOrderTree, Time = 0, NextOrderID = 0\<rparr>"

definition UpdateTime :: "64 word \<Rightarrow> OrderBook \<Rightarrow> OrderBook" where
  "UpdateTime now orderBook = orderBook\<lparr>Time := now\<rparr>"

definition BestBid :: "OrderBook \<Rightarrow> Heap \<Rightarrow> int" where
  "BestBid orderBook h = MaxPrice (Bids orderBook) h"

definition BestAsk :: "OrderBook \<Rightarrow> Heap \<Rightarrow> int" where
  "BestAsk orderBook h = MinPrice (Asks orderBook) h"

text \<open>
  The block \<open>if side == Bid { orderBook.Bids.RemoveOrderById(id) } else
  { orderBook.Asks.RemoveOrderById(id) }\<close>, which \<open>ProcessOrderList\<close> and \<open>CancelOrder\<close> share.
\<close>

definition RemoveOrderById_side ::
  "string \<Rightarrow> 64 word \<Rightarrow> OrderBook \<Rightarrow> Heap \<Rightarrow> (OrderBook \<times> Heap) option" where
  "RemoveOrderById_side side orderId orderBook h =
     (if side = Bid then
        (case RemoveOrderById orderId (Bids orderBook) h of
           None \<Rightarrow> None
         | Some (t, h') \<Rightarrow> Some (orderBook\<lparr>Bids := t\<rparr>, h'))
      else
        (case RemoveOrderById orderId (Asks orderBook) h of
           None \<Rightarrow> None
         | Some (t, h') \<Rightarrow> Some (orderBook\<lparr>Asks := t\<rparr>, h')))"

text \<open>
  The loop of \<open>ProcessOrderList\<close>.  The argument \<open>trades\<close> is the local slice of the same
  name, so the function is called with \<open>[]\<close>; \<open>quote\<close> is only read by the log line, and
  the flag \<open>verbose\<close>, which only switches that line on, is left out.  The loop is not
  known to end on every heap, so it is a partial function: \<open>None\<close> is a run that panics or
  does not return.
\<close>

partial_function (option) ProcessOrderList ::
  "string \<Rightarrow> ref option \<Rightarrow> int \<Rightarrow> ref \<Rightarrow> trade list \<Rightarrow> OrderBook \<Rightarrow> Heap
     \<Rightarrow> (int \<times> trade list \<times> OrderBook \<times> Heap) option" where
  "ProcessOrderList side orderList quantityToTrade quote trades orderBook h =
     (case orderList of
        None \<Rightarrow> None
      | Some ol \<Rightarrow>
          if OrderList_Length ol h > 0 \<and> quantityToTrade > 0 then
            (case HeadOrder ol h of
               None \<Rightarrow> None
             | Some headOrder \<Rightarrow>
                 (let tradedPrice = Price (orders h headOrder);
                      transactionRecord = (\<lambda>tradedQuantity.
                        \<lparr>timestamp = Time orderBook, price = tradedPrice,
                         quantity = tradedQuantity, time = Time orderBook\<rparr>)
                  in if quantityToTrade < Quantity (orders h headOrder) then
                       (case UpdateQuantity headOrder
                               (Quantity (orders h headOrder) - quantityToTrade)
                               (UpdatedAt (orders h headOrder)) h of
                          None \<Rightarrow> None
                        | Some h' \<Rightarrow>
                            ProcessOrderList side orderList 0 quote
                              (trades @ [transactionRecord quantityToTrade]) orderBook h')
                     else if quantityToTrade = Quantity (orders h headOrder) then
                       (case RemoveOrderById_side side (OrderID (orders h headOrder)) orderBook h of
                          None \<Rightarrow> None
                        | Some (orderBook', h') \<Rightarrow>
                            ProcessOrderList side orderList 0 quote
                              (trades @ [transactionRecord quantityToTrade]) orderBook' h')
                     else
                       (case RemoveOrderById_side side (OrderID (orders h headOrder)) orderBook h of
                          None \<Rightarrow> None
                        | Some (orderBook', h') \<Rightarrow>
                            ProcessOrderList side orderList quantityToTrade quote
                              (trades @ [transactionRecord (Quantity (orders h headOrder))]) orderBook' h')))
          else Some (quantityToTrade, trades, orderBook, h))"

text \<open>
  The two loops of \<open>ProcessMarketOrder\<close> differ only in the tree they consume: for
  \<open>side = Ask\<close> the loop takes \<open>Asks.MinPriceList()\<close>, otherwise \<open>Bids.MaxPriceList()\<close>;
  \<open>side\<close> is the side handed to \<open>ProcessOrderList\<close>.
\<close>

definition opposing_Length :: "string \<Rightarrow> OrderBook \<Rightarrow> int" where
  "opposing_Length side orderBook =
     (if side = Ask then OrderTree_Length (Asks orderBook) else OrderTree_Length (Bids orderBook))"

definition best_price_list :: "string \<Rightarrow> OrderBook \<Rightarrow> Heap \<Rightarrow> ref option" where
  "best_price_list side orderBook h =
     (if side = Ask then MinPriceList (Asks orderBook) h else MaxPriceList (Bids orderBook) h)"

partial_function (option) market_loop ::
  "string \<Rightarrow> int \<Rightarrow> ref \<Rightarrow> trade list \<Rightarrow> OrderBook \<Rightarrow> Heap
     \<Rightarrow> (int \<times> trade list \<times> OrderBook \<times> Heap) option" where
  "market_loop side quantity_to_trade quote trades orderBook h =
     (if quantity_to_trade > 0 \<and> opposing_Length side orderBook > 0 then
        (case ProcessOrderList side (best_price_list side orderBook h) quantity_to_trade quote []
                orderBook h of
           None \<Rightarrow> None
         | Some (quantity_to_trade', new_trades, orderBook', h') \<Rightarrow>
             market_loop side quantity_to_trade' quote (trades @ new_trades) orderBook' h')
      else Some (quantity_to_trade, trades, orderBook, h))"

definition ProcessMarketOrder ::
  "ref \<Rightarrow> OrderBook \<Rightarrow> Heap \<Rightarrow> (trade list \<times> OrderBook \<times> Heap) option" where
  "ProcessMarketOrder quote orderBook h =
     (let quantity_to_trade = Quantity (orders h quote);
          side = Side (orders h quote)
      in if side = Bid then
           (case market_loop Ask quantity_to_trade quote [] orderBook h of
              None \<Rightarrow> None
            | Some (q, trades, orderBook', h') \<Rightarrow> Some (trades, orderBook', h'))
         else if side = Ask then
           (case market_loop Bid quantity_to_trade quote [] orderBook h of
              None \<Rightarrow> None
            | Some (q, trades, orderBook', h') \<Rightarrow> Some (trades, orderBook', h'))
         else Some ([], orderBook, h))"

text \<open>
  The loops of \<open>ProcessLimitOrder\<close> add the price gate: against the asks the loop goes on
  while \<open>price \<ge> minPrice\<close>, against the bids while \<open>price \<le> maxPrice\<close>.  The local
  \<open>minPrice\<close>/\<open>maxPrice\<close> is read before the loop and again after every round, so it is
  always the best price of the current book.
\<close>

definition price_gate :: "string \<Rightarrow> int \<Rightarrow> OrderBook \<Rightarrow> Heap \<Rightarrow> bool" where
  "price_gate side p orderBook h =
     (if side = Ask then p \<ge> MinPrice (Asks orderBook) h else p \<le> MaxPrice (Bids orderBook) h)"

partial_function (option) limit_loop ::
  "string \<Rightarrow> int \<Rightarrow> int \<Rightarrow> ref \<Rightarrow> trade list \<Rightarrow> OrderBook \<Rightarrow> Heap
     \<Rightarrow> (int \<times> trade list \<times> OrderBook \<times> Heap) option" where
  "limit_loop side p quantity_to_trade quote trades orderBook h =
     (if quantity_to_trade > 0 \<and> opposing_Length side orderBook > 0
         \<and> price_gate side p orderBook h then
        (case ProcessOrderList side (best_price_list side orderBook h) quantity_to_trade quote []
                orderBook h of
           None \<Rightarrow> None
         | Some (quantity_to_trade', new_trades, orderBook', h') \<Rightarrow>
             limit_loop side p quantity_to_trade' quote (trades @ new_trades) orderBook' h')
      else Some (quantity_to_trade, trades, orderBook, h))"

text \<open>
  The tail of each branch of \<open>ProcessLimitOrder\<close>: what is left of the order rests on
  its own side.  The error of \<open>InsertOrder\<close> is dropped, as in the source.
\<close>

definition rest_order ::
  "TomoXDao \<Rightarrow> string \<Rightarrow> ref \<Rightarrow> int \<Rightarrow> trade list \<Rightarrow> OrderBook \<Rightarrow> Heap
     \<Rightarrow> (trade list \<times> residual \<times> OrderBook \<times> Heap) option" where
  "rest_order db side quote quantity_to_trade trades orderBook h =
     (if quantity_to_trade > 0 then
        (let h1 = set_order quote (\<lambda>x. x\<lparr>OrderID := NextOrderID orderBook\<rparr>) h;
             h2 = set_order quote (\<lambda>x. x\<lparr>Quantity := quantity_to_trade\<rparr>) h1
         in if side = Bid then
              (case InsertOrder db quote (Bids orderBook) h2 of
                 None \<Rightarrow> None
               | Some (err, t, h3) \<Rightarrow> Some (trades, InBook quote, orderBook\<lparr>Bids := t\<rparr>, h3))
            else
              (case InsertOrder db quote (Asks orderBook) h2 of
                 None \<Rightarrow> None
               | Some (err, t, h3) \<Rightarrow> Some (trades, InBook quote, orderBook\<lparr>Asks := t\<rparr>, h3)))
      else Some (trades, EmptyOrder, orderBook, h))"

definition ProcessLimitOrder ::
  "TomoXDao \<Rightarrow> ref \<Rightarrow> OrderBook \<Rightarrow> Heap \<Rightarrow> (trade list \<times> residual \<times> OrderBook \<times> Heap) option" where
  "ProcessLimitOrder db quote orderBook h =
     (let quantity_to_trade = Quantity (orders h quote);
          side = Side (orders h quote);
          p = Price (orders h quote)
      in if side = Bid then
           (case limit_loop Ask p quantity_to_trade quote [] orderBook h of
              None \<Rightarrow> None
            | Some (q, trades, orderBook', h') \<Rightarrow> rest_order db Bid quote q trades orderBook' h')
         else if side = Ask then
           (case limit_loop Bid p quantity_to_trade quote [] orderBook h of
              None \<Rightarrow> None
            | Some (q, trades, orderBook', h') \<Rightarrow> rest_order db Ask quote q trades orderBook' h')
         else Some ([], EmptyOrder, orderBook, h))"

text \<open>\<open>now\<close> is the value of \<open>time.Now().Unix()\<close> read by \<open>UpdateTime\<close>.\<close>

definition ProcessOrder ::
  "TomoXDao \<Rightarrow> 64 word \<Rightarrow> ref \<Rightarrow> OrderBook \<Rightarrow> Heap
     \<Rightarrow> (trade list \<times> residual \<times> OrderBook \<times> Heap) option" where
  "ProcessOrder db now quote orderBook h =
     (let order_type = Type (orders h quote);
          b1 = UpdateTime now orderBook;
          h1 = set_order quote (\<lambda>x. x\<lparr>UpdatedAt := Time b1\<rparr>) h;
          b2 = b1\<lparr>NextOrderID := NextOrderID b1 + 1\<rparr>
      in if order_type = ''market'' then
           (case ProcessMarketOrder quote b2 h1 of
              None \<Rightarrow> None
            | Some (trades, b3, h3) \<Rightarrow> Some (trades, EmptyOrder, b3, h3))
         else ProcessLimitOrder db quote b2 h1)"

definition CancelOrder :: "64 word \<Rightarrow> ref \<Rightarrow> OrderBook \<Rightarrow> Heap \<Rightarrow> (OrderBook \<times> Heap) option" where
  "CancelOrder now order orderBook h =
     (let b1 = UpdateTime now orderBook;
          orderId = OrderID (orders h order)
      in if Side (orders h order) = Bid then
           (if OrderExist orderId (Bids b1) then RemoveOrderById_side Bid orderId b1 h
            else Some (b1, h))
         else
           (if OrderExist orderId (Asks b1) then RemoveOrderById_side Ask orderId b1 h
            else Some (b1, h)))"

definition ModifyOrder ::
  "TomoXDao \<Rightarrow> 64 word \<Rightarrow> ref \<Rightarrow> 64 word \<Rightarrow> OrderBook \<Rightarrow> Heap \<Rightarrow> (OrderBook \<times> Heap) option" where
  "ModifyOrder db now quoteUpdate orderId orderBook h =
     (let b1 = UpdateTime now orderBook;
          side = Side (orders h quoteUpdate);
          h1 = set_order quoteUpdate (\<lambda>x. x\<lparr>OrderID := orderId\<rparr>) h;
          h2 = set_order quoteUpdate (\<lambda>x. x\<lparr>UpdatedAt := Time b1\<rparr>) h1
      in if side = Bid then
           (if OrderExist orderId (Bids b1) then
              (case UpdateOrder db quoteUpdate (Bids b1) h2 of
                 None \<Rightarrow> None
               | Some (t, h3) \<Rightarrow> Some (b1\<lparr>Bids := t\<rparr>, h3))
            else Some (b1, h2))
         else
           (if OrderExist orderId (Asks b1) then
              (case UpdateOrder db quoteUpdate (Asks b1) h2 of
                 None \<Rightarrow> None
               | Some (t, h3) \<Rightarrow> Some (b1\<lparr>Asks := t\<rparr>, h3))
            else Some (b1, h2)))"

text \<open>
  \<open>VolumeAtPrice\<close> dereferences the list it looks up; \<open>None\<close> would be the panic on a
  \<open>nil\<close> list.
\<close>

definition VolumeAtPrice :: "string \<Rightarrow> int \<Rightarrow> OrderBook \<Rightarrow> Heap \<Rightarrow> int option" where
  "VolumeAtPrice side p orderBook h =
     (if side = Bid then
        (if PriceExist p (Bids orderBook) then
           (case PriceList p (Bids orderBook) of
              Some l \<Rightarrow> Some (LVolume (lists h l))
            | None \<Rightarrow> None)
         else Some 0)
      else
        (if PriceExist p (Asks orderBook) then
           (case PriceList p (Asks orderBook) of
              Some l \<Rightarrow> Some (LVolume (lists h l))
            | None \<Rightarrow> None)
         else Some 0))"

section \<open>Concrete books\<close>

text \<open>
  The scenarios start from \<open>NewOrderBook\<close> and a heap that holds the submitted orders;
  \<open>blank_order\<close> is the zero value \<open>Order{}\<close>.
\<close>

definition blank_order :: Order where
  "blank_order = \<lparr>Quantity = 0, Price = 0, PriceRef = 0, Side = [], Type = [], UpdatedAt = 0,
     OrderID = 0, NextOrder = None, PrevOrder = None, OrderList = None\<rparr>"

definition new_order :: "string \<Rightarrow> string \<Rightarrow> int \<Rightarrow> nat \<Rightarrow> int \<Rightarrow> Order" where
  "new_order side ty p pref q =
     blank_order\<lparr>Side := side, Type := ty, Price := p, PriceRef := pref, Quantity := q\<rparr>"

definition heap_of :: "Order list \<Rightarrow> Heap" where
  "heap_of os = \<lparr>orders = (\<lambda>r. if r < length os then os ! r else blank_order),
                  lists = (\<lambda>_. NewOrderList 0), nextList = 0\<rparr>"

definition store_ok :: TomoXDao where
  "store_ok = \<lparr>SaveOrder_ok = True, SaveList_ok = True, SaveTree_ok = True\<rparr>"

text \<open>Two limit BUYs at 100 (quantities 4 and 6) rest; order 2 is a market SELL of 7.\<close>

definition two_bids_heap :: Heap where
  "two_bids_heap = heap_of [new_order Bid Limit 100 0 4, new_order Bid Limit 100 1 6,
                            new_order Ask Market 0 2 7]"

definition two_bids :: "(OrderBook \<times> Heap) option" where
  "two_bids =
     (case ProcessOrder store_ok 10 0 NewOrderBook two_bids_heap of
        None \<Rightarrow> None
      | Some (t1, r1, b1, h1) \<Rightarrow>
          (case ProcessOrder store_ok 11 1 b1 h1 of
             None \<Rightarrow> None
           | Some (t2, r2, b2, h2) \<Rightarrow> Some (b2, h2)))"

text \<open>
  One limit BUY of 5 at 100 rests; order 1 is an update of it to the price 110, order 2 a
  market SELL of 3.
\<close>

definition one_bid_heap :: Heap where
  "one_bid_heap = heap_of [new_order Bid Limit 100 0 5, new_order Bid Limit 110 1 5,
                           new_order Ask Market 0 2 3]"

definition one_bid :: "(OrderBook \<times> Heap) option" where
  "one_bid =
     (case ProcessOrder store_ok 10 0 NewOrderBook one_bid_heap of
        None \<Rightarrow> None
      | Some (t1, r1, b1, h1) \<Rightarrow> Some (b1, h1))"

text \<open>A limit SELL of 10 at 200 rests; order 1 is a limit BUY of 4 at 190.\<close>

definition ask_200_heap :: Heap where
  "ask_200_heap = heap_of [new_order Ask Limit 200 0 10, new_order Bid Limit 190 1 4]"

definition ask_200 :: "(OrderBook \<times> Heap) option" where
  "ask_200 =
     (case ProcessOrder store_ok 10 0 NewOrderBook ask_200_heap of
        None \<Rightarrow> None
      | Some (t1, r1, b1, h1) \<Rightarrow> Some (b1, h1))"

section \<open>Aggregates of a tree\<close>

text \<open>The sums over the order lists of a tree that its counters are meant to equal.\<close>

definition sum_Len :: "OrderTree \<Rightarrow> Heap \<Rightarrow> int" where
  "sum_Len ordertree h = sum_list (map (\<lambda>(p, l). Len (lists h l)) (PriceMap ordertree))"

definition sum_LVolume :: "OrderTree \<Rightarrow> Heap \<Rightarrow> int" where
  "sum_LVolume ordertree h = sum_list (map (\<lambda>(p, l). LVolume (lists h l)) (PriceMap ordertree))"

section \<open>Relations between states\<close>

text \<open>
  \<open>tree_shrinks t t'\<close>: every entry of the maps of \<open>t'\<close> is an entry of \<open>t\<close>.
  \<open>consumes side b b'\<close>: from \<open>b\<close> to \<open>b'\<close> only the tree of \<open>side\<close> changed, and it
  shrank.  \<open>same_core h h'\<close>: the orders of the two heaps differ in their links at most.
\<close>

definition tree_shrinks :: "OrderTree \<Rightarrow> OrderTree \<Rightarrow> bool" where
  "tree_shrinks t t' =
     (set (OrderMap t') \<subseteq> set (OrderMap t) \<and> set (PriceMap t') \<subseteq> set (PriceMap t)
      \<and> set (PriceTree t') \<subseteq> set (PriceTree t))"

definition consumes :: "string \<Rightarrow> OrderBook \<Rightarrow> OrderBook \<Rightarrow> bool" where
  "consumes side b b' =
     (Time b' = Time b \<and> NextOrderID b' = NextOrderID b
      \<and> (if side = Bid then Asks b' = Asks b \<and> tree_shrinks (Bids b) (Bids b')
          else Bids b' = Bids b \<and> tree_shrinks (Asks b) (Asks b')))"

definition core :: "Order \<Rightarrow> Order" where
  "core x = x\<lparr>NextOrder := None, PrevOrder := None, OrderList := None\<rparr>"

definition same_core :: "Heap \<Rightarrow> Heap \<Rightarrow> bool" where
  "same_core h h' = (\<forall>r. core (orders h' r) = core (orders h r))"

section \<open>The doubly linked list of a price level\<close>

text \<open>
  \<open>seg os prev xs nxt\<close>: the orders \<open>xs\<close> are linked in this order through \<open>NextOrder\<close>
  and \<open>PrevOrder\<close>, the first one pointing back to \<open>prev\<close> and the last one on to
  \<open>nxt\<close>.  \<open>dll h l xs\<close>: the list object \<open>l\<close> holds exactly the orders \<open>xs\<close>, head
  first.  \<open>follow os n p\<close> follows \<open>NextOrder\<close> \<open>n\<close> times from the pointer \<open>p\<close>.
\<close>

definition first_or :: "ref list \<Rightarrow> ref option \<Rightarrow> ref option" where
  "first_or xs d = (case xs of [] \<Rightarrow> d | y # _ \<Rightarrow> Some y)"

definition last_or :: "ref list \<Rightarrow> ref option \<Rightarrow> ref option" where
  "last_or xs d = (if xs = [] then d else Some (last xs))"

fun seg :: "(ref \<Rightarrow> Order) \<Rightarrow> ref option \<Rightarrow> ref list \<Rightarrow> ref option \<Rightarrow> bool" where
  "seg os prev [] nxt = True"
| "seg os prev (x # xs) nxt =
     (PrevOrder (os x) = prev \<and> NextOrder (os x) = first_or xs nxt \<and> seg os (Some x) xs nxt)"

definition dll :: "Heap \<Rightarrow> ref \<Rightarrow> ref list \<Rightarrow> bool" where
  "dll h l xs =
     (distinct xs \<and> Len (lists h l) = int (length xs) \<and> seg (orders h) None xs None
      \<and> (xs \<noteq> [] \<longrightarrow> HOrder (lists h l) = Some (hd xs) \<and> TOrder (lists h l) = Some (last xs)))"

fun follow :: "(ref \<Rightarrow> Order) \<Rightarrow> nat \<Rightarrow> ref option \<Rightarrow> ref option" where
  "follow os 0 p = p"
| "follow os (Suc n) p = (case p of None \<Rightarrow> None | Some x \<Rightarrow> follow os n (NextOrder (os x)))"

text \<open>
  Sequences of list operations.  \<open>linked_after xs ops\<close> is the content of the list after
  \<open>ops\<close> when every \<open>AppendOrder\<close> is given an order that is not linked in the list and
  every \<open>RemoveOrder\<close> one that is; it is \<open>None\<close> for any other sequence, and for one
  that calls \<open>MoveToTail\<close>.
\<close>

datatype list_op = OpAppend ref | OpRemove ref | OpMoveToTail ref

fun apply_list_op :: "ref \<Rightarrow> list_op \<Rightarrow> Heap \<Rightarrow> Heap option" where
  "apply_list_op l (OpAppend x) h = AppendOrder l x h"
| "apply_list_op l (OpRemove x) h = Some (RemoveOrder l x h)"
| "apply_list_op l (OpMoveToTail x) h = MoveToTail l x h"

fun run_list_ops :: "ref \<Rightarrow> list_op list \<Rightarrow> Heap \<Rightarrow> Heap option" where
  "run_list_ops l [] h = Some h"
| "run_list_ops l (a # ops) h =
     (case apply_list_op l a h of None \<Rightarrow> None | Some h' \<Rightarrow> run_list_ops l ops h')"



definition claimed_list_inv :: "Heap \<Rightarrow> ref \<Rightarrow> bool" where
  "claimed_list_inv h l =
     ((Len (lists h l) = 0) = (HOrder (lists h l) = None \<and> TOrder (lists h l) = None)
      \<and> (case HOrder (lists h l) of None \<Rightarrow> True | Some first \<Rightarrow> PrevOrder (orders h first) = None)
      \<and> (case TOrder (lists h l) of None \<Rightarrow> True | Some final \<Rightarrow> NextOrder (orders h final) = None)
      \<and> (0 < Len (lists h l) \<longrightarrow>
            follow (orders h) (nat (Len (lists h l) - 1)) (HOrder (lists h l)) = TOrder (lists h l)))"

section \<open>Well-formed books\<close>

text \<open>
  The representation invariant of a tree.  \<open>mem l\<close> is the content of the list object
  \<open>l\<close>, head first (a ghost value).  \<open>wf_prices\<close>: the price tree is strictly ordered,
  \<open>Depth\<close> counts its entries, the price map holds the same pairs, every list carries the
  price it is filed under and is an allocated object.  \<open>wf_lists\<close>: every list of the tree
  is a non-empty doubly linked list whose orders point back to it, carry its price and are
  found in the order map under their id.  \<open>wf_orders\<close>: every entry of the order map is
  such an order.  In a well-formed book both trees are well-formed and share no list.
  \<open>side_tree side b\<close> is the tree that \<open>ProcessOrderList\<close> removes orders from.
\<close>

definition tree_lists :: "OrderTree \<Rightarrow> ref set" where
  "tree_lists t = snd ` set (PriceTree t)"

definition tree_orders :: "(ref \<Rightarrow> ref list) \<Rightarrow> OrderTree \<Rightarrow> ref set" where
  "tree_orders mem t = (\<Union>l \<in> tree_lists t. set (mem l))"

definition wf_prices :: "OrderTree \<Rightarrow> Heap \<Rightarrow> bool" where
  "wf_prices t h =
     (sorted_wrt (<) (map fst (PriceTree t)) \<and> Depth t = int (length (PriceTree t))
      \<and> map_of (PriceMap t) = map_of (PriceTree t)
      \<and> (\<forall>(p, l) \<in> set (PriceTree t). LPrice (lists h l) = p \<and> l < nextList h))"

definition wf_lists :: "(ref \<Rightarrow> ref list) \<Rightarrow> OrderTree \<Rightarrow> Heap \<Rightarrow> bool" where
  "wf_lists mem t h =
     (\<forall>(p, l) \<in> set (PriceTree t).
        mem l \<noteq> [] \<and> dll h l (mem l)
        \<and> (\<forall>x \<in> set (mem l).
              OrderList (orders h x) = Some l \<and> Price (orders h x) = p
              \<and> map_of (OrderMap t) (OrderID (orders h x)) = Some x))"

definition wf_orders :: "(ref \<Rightarrow> ref list) \<Rightarrow> OrderTree \<Rightarrow> Heap \<Rightarrow> bool" where
  "wf_orders mem t h =
     (\<forall>i x. map_of (OrderMap t) i = Some x \<longrightarrow>
               OrderID (orders h x) = i \<and> x \<in> tree_orders mem t)"

definition wf_tree :: "(ref \<Rightarrow> ref list) \<Rightarrow> OrderTree \<Rightarrow> Heap \<Rightarrow> bool" where
  "wf_tree mem t h = (wf_prices t h \<and> wf_lists mem t h \<and> wf_orders mem t h)"

definition wf_book :: "(ref \<Rightarrow> ref list) \<Rightarrow> OrderBook \<Rightarrow> Heap \<Rightarrow> bool" where
  "wf_book mem b h =
     (wf_tree mem (Bids b) h \<and> wf_tree mem (Asks b) h
      \<and> tree_lists (Bids b) \<inter> tree_lists (Asks b) = {})"

definition order_eqv :: "Order \<Rightarrow> Order \<Rightarrow> bool" where
  "order_eqv a b =
     (NextOrder a = NextOrder b \<and> PrevOrder a = PrevOrder b \<and> OrderList a = OrderList b
      \<and> Price a = Price b \<and> OrderID a = OrderID b)"

definition list_eqv :: "OrderList \<Rightarrow> OrderList \<Rightarrow> bool" where
  "list_eqv a b = (HOrder a = HOrder b \<and> TOrder a = TOrder b \<and> Len a = Len b \<and> LPrice a = LPrice b)"

definition side_tree :: "string \<Rightarrow> OrderBook \<Rightarrow> OrderTree" where
  "side_tree side b = (if side = Bid then Bids b else Asks b)"

definition other_tree :: "string \<Rightarrow> OrderBook \<Rightarrow> OrderTree" where
  "other_tree side b = (if side = Bid then Asks b else Bids b)"

text \<open>A limit SELL of 4 at 100 rests; order 1 is a limit BUY of 7 at 100.\<close>

definition ask_100_heap :: Heap where
  "ask_100_heap = heap_of [new_order Ask Limit 100 0 4, new_order Bid Limit 100 1 7]"

definition ask_100 :: "(OrderBook \<times> Heap) option" where
  "ask_100 =
     (case ProcessOrder store_ok 10 0 NewOrderBook ask_100_heap of
        None \<Rightarrow> None
      | Some (t1, r1, b1, h1) \<Rightarrow> Some (b1, h1))"

declare ProcessOrderList.simps [code]
declare market_loop.simps [code]
declare limit_loop.simps [code]

section \<open>Unfolding lemmas\<close>

lemmas tree_defs =
  InsertOrder_def RemoveOrderById_def UpdateOrder_def CreatePrice_def RemovePrice_def
  PriceExist_def OrderExist_def PriceList_def MaxPrice_def MinPrice_def MaxPriceList_def
  MinPriceList_def GetMin_def GetMax_def Remove_def NewOrderTree_def OrderTree_Length_def

lemmas list_defs =
  AppendOrder_def RemoveOrder_def MoveToTail_def UpdateQuantity_def NewOrderList_def
  OrderList_Length_def HeadOrder_def set_order_def set_list_def

lemmas book_defs =
  ProcessOrder_def ProcessLimitOrder_def ProcessMarketOrder_def rest_order_def
  RemoveOrderById_side_def CancelOrder_def ModifyOrder_def NewOrderBook_def UpdateTime_def
  opposing_Length_def best_price_list_def price_gate_def Ask_def Bid_def Market_def Limit_def

lemmas sample_defs =
  blank_order_def new_order_def heap_of_def store_ok_def

section \<open>Frame lemmas\<close>

lemma tree_shrinks_refl: "tree_shrinks t t"
  by (simp add: tree_shrinks_def)

lemma tree_shrinks_trans: "tree_shrinks t t' \<Longrightarrow> tree_shrinks t' t'' \<Longrightarrow> tree_shrinks t t''"
  by (auto simp: tree_shrinks_def)

lemma consumes_refl: "consumes side b b"
  by (simp add: consumes_def tree_shrinks_refl)

lemma consumes_trans: "consumes side b b' \<Longrightarrow> consumes side b' b'' \<Longrightarrow> consumes side b b''"
  by (auto simp: consumes_def intro: tree_shrinks_trans split: if_splits)

lemma set_delete_subset: "set (AList.delete k xs) \<subseteq> set xs"
  by (auto simp: AList.delete_eq)

lemma nextList_set_order [simp]: "nextList (set_order r f h) = nextList h"
  by (simp add: set_order_def)

lemma nextList_set_list [simp]: "nextList (set_list r f h) = nextList h"
  by (simp add: set_list_def)

lemma nextList_RemoveOrder [simp]: "nextList (RemoveOrder ol x h) = nextList h"
  by (simp add: RemoveOrder_def Let_def split: option.splits)

lemma RemovePrice_shrinks: "tree_shrinks t (RemovePrice p t)"
  by (simp add: tree_shrinks_def RemovePrice_def Remove_def set_delete_subset)

lemma RemoveOrderById_shrinks:
  assumes "RemoveOrderById orderId t h = Some (t', h')"
  shows "tree_shrinks t t' \<and> nextList h' = nextList h"
  using assms
  by (auto simp: RemoveOrderById_def Let_def tree_shrinks_def RemovePrice_def Remove_def
        split: option.splits if_splits dest: subsetD[OF set_delete_subset])

lemma RemoveOrderById_side_consumes:
  assumes "RemoveOrderById_side side orderId b h = Some (b', h')"
  shows "consumes side b b' \<and> nextList h' = nextList h"
  using assms
  by (auto simp: RemoveOrderById_side_def consumes_def split: if_splits option.splits
        dest: RemoveOrderById_shrinks)

lemma nextList_MoveToTail: "MoveToTail ol x h = Some h' \<Longrightarrow> nextList h' = nextList h"
  by (auto simp: MoveToTail_def Let_def split: option.splits)

lemma nextList_UpdateQuantity: "UpdateQuantity x q ts h = Some h' \<Longrightarrow> nextList h' = nextList h"
  by (auto simp: UpdateQuantity_def Let_def split: option.splits if_splits dest: nextList_MoveToTail)

lemmas ProcessOrderList_induct = ProcessOrderList.raw_induct[rotated -1, consumes 1, case_names step]

lemma ProcessOrderList_consumes:
  assumes "ProcessOrderList side ol q quote ts b h = Some r"
  shows "consumes side b (fst (snd (snd r))) \<and> nextList (snd (snd (snd r))) = nextList h"
  using assms
proof (induction rule: ProcessOrderList_induct)
  case (step rec side ol q quote ts b h r)
  from step.hyps show ?case
    by (auto simp: consumes_refl Let_def split: option.splits if_splits
          dest!: step.IH RemoveOrderById_side_consumes nextList_UpdateQuantity
          intro: consumes_trans)
qed


lemmas market_loop_induct = market_loop.raw_induct[rotated -1, consumes 1, case_names step]
lemmas limit_loop_induct = limit_loop.raw_induct[rotated -1, consumes 1, case_names step]

lemma market_loop_consumes:
  assumes "market_loop side q quote ts b h = Some r"
  shows "consumes side b (fst (snd (snd r))) \<and> nextList (snd (snd (snd r))) = nextList h"
  using assms
proof (induction rule: market_loop_induct)
  case (step rec side q quote ts b h r)
  from step.hyps show ?case
    by (auto simp: consumes_refl split: option.splits if_splits
          dest!: step.IH ProcessOrderList_consumes intro: consumes_trans)
qed

lemma limit_loop_consumes:
  assumes "limit_loop side p q quote ts b h = Some r"
  shows "consumes side b (fst (snd (snd r))) \<and> nextList (snd (snd (snd r))) = nextList h"
  using assms
proof (induction rule: limit_loop_induct)
  case (step rec side p q quote ts b h r)
  from step.hyps show ?case
    by (auto simp: consumes_refl split: option.splits if_splits
          dest!: step.IH ProcessOrderList_consumes intro: consumes_trans)
qed

lemma market_loop_empty:
  assumes "opposing_Length side b = 0"
  shows "market_loop side q quote ts b h = Some (q, ts, b, h)"
  using assms by (subst market_loop.simps) simp

lemma same_core_refl: "same_core h h"
  by (simp add: same_core_def)

lemma same_core_trans: "same_core h h' \<Longrightarrow> same_core h' h'' \<Longrightarrow> same_core h h''"
  by (simp add: same_core_def)

lemma same_core_set_list: "same_core h (set_list l f h)"
  by (simp add: same_core_def set_list_def)

lemma same_core_set_order:
  "core (f (orders h r)) = core (orders h r) \<Longrightarrow> same_core h (set_order r f h)"
  by (simp add: same_core_def set_order_def)

lemma same_core_fields:
  assumes "same_core h h'"
  shows "Quantity (orders h' r) = Quantity (orders h r)"
    and "Price (orders h' r) = Price (orders h r)"
    and "OrderID (orders h' r) = OrderID (orders h r)"
    and "Side (orders h' r) = Side (orders h r)"
proof -
  have c: "core (orders h' r) = core (orders h r)"
    using assms by (simp add: same_core_def)
  have q: "Quantity (core x) = Quantity x" "Price (core x) = Price x"
     "OrderID (core x) = OrderID x" "Side (core x) = Side x" for x
    by (simp_all add: core_def)
  show "Quantity (orders h' r) = Quantity (orders h r)" using c q(1) by metis
  show "Price (orders h' r) = Price (orders h r)" using c q(2) by metis
  show "OrderID (orders h' r) = OrderID (orders h r)" using c q(3) by metis
  show "Side (orders h' r) = Side (orders h r)" using c q(4) by metis
qed

lemma same_core_RemoveOrder: "same_core h (RemoveOrder l x h)"
  by (auto simp: RemoveOrder_def Let_def same_core_def set_list_def set_order_def core_def
        split: option.splits)

lemma same_core_AppendOrder: "AppendOrder l x h = Some h' \<Longrightarrow> same_core h h'"
  by (auto simp: AppendOrder_def Let_def same_core_def set_list_def set_order_def core_def
        split: option.splits if_splits)

lemma AppendOrder_tail:
  "AppendOrder l x h = Some h' \<Longrightarrow>
     TOrder (lists h' l) = Some x \<and> OrderList (orders h' r) = OrderList (orders h r)"
  by (auto simp: AppendOrder_def Let_def set_list_def set_order_def OrderList_Length_def
        split: option.splits if_splits)

lemma same_core_RemoveOrderById:
  "RemoveOrderById orderId t h = Some (t', h') \<Longrightarrow> same_core h h'"
  by (auto simp: RemoveOrderById_def Let_def same_core_RemoveOrder split: option.splits)

lemma same_core_CreatePrice: "CreatePrice p t h = (t', h') \<Longrightarrow> same_core h h'"
  by (auto simp: CreatePrice_def Let_def same_core_def)

lemma CreatePrice_PriceMap: "CreatePrice p t h = (t', h') \<Longrightarrow> map_of (PriceMap t') p \<noteq> None"
  by (auto simp: CreatePrice_def Let_def update_conv')

lemma InsertOrder_result:
  assumes ins: "InsertOrder db quote t h = Some (err, t', h')"
  shows "same_core h h'
     \<and> (\<exists>l. map_of (PriceMap t') (Price (orders h quote)) = Some l
             \<and> OrderList (orders h' quote) = Some l \<and> TOrder (lists h' l) = Some quote)
     \<and> (SaveOrder_ok db \<and> SaveList_ok db \<longrightarrow>
           map_of (OrderMap t') (OrderID (orders h quote)) = Some quote)"
proof -
  let ?id = "OrderID (orders h quote)"
  obtain t1 h1 where r1: "(if OrderExist ?id t then RemoveOrderById ?id t h else Some (t, h)) = Some (t1, h1)"
    using ins by (auto simp: InsertOrder_def Let_def split: option.splits)
  have c1: "same_core h h1"
    using r1 by (auto simp: same_core_refl split: if_splits dest: same_core_RemoveOrderById)
  let ?t2 = "t1\<lparr>NumOrders := NumOrders t1 + 1\<rparr>"
  let ?p = "Price (orders h1 quote)"
  obtain t3 h3 where r3: "(if \<not> PriceExist ?p ?t2 then CreatePrice ?p ?t2 h1 else (?t2, h1)) = (t3, h3)"
    by (cases "(if \<not> PriceExist ?p ?t2 then CreatePrice ?p ?t2 h1 else (?t2, h1))") blast
  have c3: "same_core h1 h3"
    using r3 by (auto simp: same_core_refl split: if_splits dest: same_core_CreatePrice)
  obtain l where l: "map_of (PriceMap t3) ?p = Some l"
    using r3 by (auto simp: PriceExist_def split: if_splits dest: CreatePrice_PriceMap)
  let ?h4 = "set_order quote (\<lambda>x. x\<lparr>OrderList := Some l\<rparr>) h3"
  have c4: "same_core h3 ?h4"
    by (rule same_core_set_order) (simp add: core_def)
  from ins r1 r3 l obtain h5 where a: "AppendOrder l quote ?h4 = Some h5"
      and res: "h' = h5"
        "t' = (if \<not> SaveOrder_ok db then t3 else if \<not> SaveList_ok db then t3
               else t3\<lparr>OrderMap := AList.update ?id quote (OrderMap t3),
                       Volume := Volume t3 + Quantity (orders h5 quote)\<rparr>)"
    by (auto simp: InsertOrder_def Let_def split: option.splits if_splits)
  have c5: "same_core ?h4 h5" by (rule same_core_AppendOrder[OF a])
  have c: "same_core h h'"
    using c1 c3 c4 c5 res(1) by (blast intro: same_core_trans)
  have p: "?p = Price (orders h quote)"
    using same_core_fields(2)[OF c1] by simp
  have pm: "PriceMap t' = PriceMap t3"
    using res(2) by simp
  have tl: "TOrder (lists h5 l) = Some quote" "OrderList (orders h5 quote) = Some l"
    using AppendOrder_tail[OF a, of quote] by (simp_all add: set_order_def)
  have om: "SaveOrder_ok db \<and> SaveList_ok db \<longrightarrow> map_of (OrderMap t') ?id = Some quote"
    using res(2) by (simp add: update_conv')
  show ?thesis
    using c l p pm tl om res(1) by auto
qed

lemma ProcessOrder_limit:
  "Type (orders h quote) \<noteq> ''market'' \<Longrightarrow>
     ProcessOrder db now quote b h =
       ProcessLimitOrder db quote (b\<lparr>Time := now, NextOrderID := NextOrderID b + 1\<rparr>)
         (set_order quote (\<lambda>x. x\<lparr>UpdatedAt := now\<rparr>) h)"
  by (simp add: ProcessOrder_def UpdateTime_def Let_def)

section \<open>Volume at a price\<close>

text \<open>
  C10.  For either side and every price, \<open>VolumeAtPrice\<close> returns a value (it never
  panics): zero when the side's tree has no list at that price, and the \<open>Volume\<close> of the
  list otherwise.  Any side other than \<open>Bid\<close> reads the asks.
\<close>

theorem VolumeAtPrice_total:
  "VolumeAtPrice side p orderBook h =
     Some (case map_of (PriceMap (if side = Bid then Bids orderBook else Asks orderBook)) p of
             None \<Rightarrow> 0
           | Some l \<Rightarrow> LVolume (lists h l))"
  by (simp add: VolumeAtPrice_def PriceExist_def PriceList_def split: option.split)

section \<open>Cancelling an order that is not in the book\<close>

text \<open>
  C9.  When the id of the order is absent from the tree of its side (the bids for a BUY,
  the asks otherwise), \<open>CancelOrder\<close> returns normally, the heap and both trees are
  unchanged, and the only field of the book that changes is \<open>Time\<close>, which becomes the
  current timestamp.
\<close>

theorem CancelOrder_absent:
  assumes "\<not> OrderExist (OrderID (orders h order))
               (if Side (orders h order) = Bid then Bids orderBook else Asks orderBook)"
  shows "CancelOrder now order orderBook h = Some (orderBook\<lparr>Time := now\<rparr>, h)"
  using assms by (simp add: CancelOrder_def UpdateTime_def Let_def split: if_splits)

theorem CancelOrder_absent_witness:
  "\<not> OrderExist (OrderID (orders two_bids_heap 2))
        (if Side (orders two_bids_heap 2) = Bid then Bids NewOrderBook else Asks NewOrderBook)
   \<and> CancelOrder 7 2 NewOrderBook two_bids_heap = Some (NewOrderBook\<lparr>Time := 7\<rparr>, two_bids_heap)"
proof -
  have a: "\<not> OrderExist (OrderID (orders two_bids_heap 2))
        (if Side (orders two_bids_heap 2) = Bid then Bids NewOrderBook else Asks NewOrderBook)"
    by (simp add: two_bids_heap_def sample_defs tree_defs book_defs)
  show ?thesis using a CancelOrder_absent [OF a, of 7] by simp
qed

section \<open>Consuming the head of a price level\<close>

lemma ProcessOrderList_stop:
  assumes "\<not> (0 < OrderList_Length ol h \<and> 0 < q)"
  shows "ProcessOrderList side (Some ol) q quote ts orderBook h = Some (q, ts, orderBook, h)"
proof -
  have stop: "(0 < OrderList_Length ol h \<and> 0 < q) = False"
    using assms by simp
  show ?thesis
    by (subst ProcessOrderList.simps) (simp only: option.case stop if_False)
qed

lemma one_bid_state:
  "\<exists>b h. one_bid = Some (b, h) \<and> OrderList_Length 0 h = 1 \<and> HeadOrder 0 h = Some 0
     \<and> Quantity (orders h 0) = 5 \<and> OrderList (orders h 0) = Some 0 \<and> Time b = 10
     \<and> Price (orders h 0) = 100"
  by (simp add: one_bid_def one_bid_heap_def sample_defs book_defs tree_defs list_defs
        limit_loop.simps Let_def)

text \<open>
  C1 (the code departs from the claim).  With two resting BUYs at 100 of quantities 4 and 6
  and 7 left to trade, the third branch (\<open>r > h.quantity\<close>) removes the head of quantity
  4 but goes on with the full 7 instead of \<open>7 - 4 = 3\<close>: the second order is consumed
  whole too, the trades are 4 and 6, the remaining quantity is still 7 and no bid is left.
\<close>

theorem ProcessOrderList_keeps_remaining:
  "(case two_bids of
      None \<Rightarrow> None
    | Some (b, h) \<Rightarrow>
        map_option (\<lambda>(q, trades, b', h'). (q, map quantity trades, OrderMap (Bids b')))
          (ProcessOrderList Bid (MaxPriceList (Bids b) h) 7 2 [] b h))
   = Some (7, [4, 6], [])"
  by (simp add: two_bids_def two_bids_heap_def sample_defs book_defs tree_defs list_defs
        limit_loop.simps ProcessOrderList.simps Let_def)

text \<open>
  C2.  A partial fill (\<open>0 < r < head.quantity\<close>, the head linked in its list) ends the
  loop after one trade of \<open>r\<close>.  The list still has the same head (only its \<open>Volume\<close>
  went down by \<open>r\<close>, so head, tail and length are the same), the head order changed in its
  \<open>Quantity\<close> only (its links and its \<open>UpdatedAt\<close> are the same), and no other order
  changed.
\<close>

theorem partial_fill_keeps_head:
  assumes len: "0 < OrderList_Length ol h"
    and head: "HeadOrder ol h = Some headOrder"
    and r: "0 < r" "r < Quantity (orders h headOrder)"
    and own: "OrderList (orders h headOrder) = Some ol"
  shows "\<exists>h'. ProcessOrderList side (Some ol) r quote trades orderBook h =
            Some (0, trades @ [\<lparr>timestamp = Time orderBook, price = Price (orders h headOrder),
                                quantity = r, time = Time orderBook\<rparr>], orderBook, h')
          \<and> HeadOrder ol h' = Some headOrder
          \<and> lists h' ol = (lists h ol)\<lparr>LVolume := LVolume (lists h ol) - r\<rparr>
          \<and> orders h' headOrder =
              (orders h headOrder)\<lparr>Quantity := Quantity (orders h headOrder) - r\<rparr>
          \<and> UpdatedAt (orders h' headOrder) = UpdatedAt (orders h headOrder)
          \<and> (\<forall>x. x \<noteq> headOrder \<longrightarrow> orders h' x = orders h x)"
proof -
  let ?h' = "set_order headOrder
               (\<lambda>x. x\<lparr>UpdatedAt := UpdatedAt (orders h headOrder),
                       Quantity := Quantity (orders h headOrder) - r\<rparr>)
               (set_list ol (\<lambda>l. l\<lparr>LVolume := LVolume l - r\<rparr>) h)"
  have upd: "UpdateQuantity headOrder (Quantity (orders h headOrder) - r)
               (UpdatedAt (orders h headOrder)) h = Some ?h'"
    using r own by (simp add: UpdateQuantity_def)
  have run: "ProcessOrderList side (Some ol) r quote trades orderBook h =
      Some (0, trades @ [\<lparr>timestamp = Time orderBook, price = Price (orders h headOrder),
                          quantity = r, time = Time orderBook\<rparr>], orderBook, ?h')"
    using len head r by (subst ProcessOrderList.simps) (simp add: upd ProcessOrderList_stop)
  show ?thesis
    using head
    by (intro exI[of _ ?h'] conjI run) (simp_all add: set_order_def set_list_def HeadOrder_def)
qed

theorem partial_fill_keeps_head_witness:
  "\<exists>b h h'. one_bid = Some (b, h)
     \<and> 0 < OrderList_Length 0 h \<and> HeadOrder 0 h = Some 0 \<and> (0::int) < 3
     \<and> 3 < Quantity (orders h 0) \<and> OrderList (orders h 0) = Some 0
     \<and> ProcessOrderList Bid (Some 0) 3 2 [] b h =
         Some (0, [\<lparr>timestamp = 10, price = 100, quantity = 3, time = 10\<rparr>], b, h')
     \<and> HeadOrder 0 h' = Some 0 \<and> Quantity (orders h' 0) = 2"
proof -
  obtain b h where s: "one_bid = Some (b, h)" "OrderList_Length 0 h = 1" "HeadOrder 0 h = Some 0"
      "Quantity (orders h 0) = 5" "OrderList (orders h 0) = Some 0" "Time b = 10"
      "Price (orders h 0) = 100"
    using one_bid_state by blast
  have a: "0 < OrderList_Length 0 h" "(0::int) < 3" "3 < Quantity (orders h 0)"
    using s by simp_all
  from partial_fill_keeps_head [OF a(1) s(3) a(2) a(3) s(5), of Bid 2 "[]" b]
  obtain h' where "ProcessOrderList Bid (Some 0) 3 2 [] b h =
         Some (0, [\<lparr>timestamp = 10, price = 100, quantity = 3, time = 10\<rparr>], b, h')"
     "HeadOrder 0 h' = Some 0" "Quantity (orders h' 0) = 2"
    using s by auto
  then show ?thesis using s a by blast
qed

section \<open>Updating the price of a resting order\<close>

text \<open>
  C5 (the code departs from the claim).  One BUY of 5 rests alone at 100 with id 1 and is
  updated to the price 110.  \<open>UpdateOrder\<close> empties the list at 100 and then calls
  \<open>RemovePrice\<close> with the new price 110: the old price 100 stays in the price tree and
  in the price map (with a list whose length ends at -1), while \<open>Depth\<close> is 1 for two
  prices.
\<close>

theorem UpdateOrder_leaves_old_price:
  "(case one_bid of
      None \<Rightarrow> None
    | Some (b, h) \<Rightarrow>
        map_option
          (\<lambda>(t, h'). (map fst (PriceTree t), map fst (PriceMap t), Depth t,
                      map (\<lambda>(p, l). Len (lists h' l)) (PriceMap t)))
          (UpdateOrder store_ok 1 (Bids b) (set_order 1 (\<lambda>x. x\<lparr>OrderID := 1\<rparr>) h)))
   = Some ([100, 110], [100, 110], 1, [- 1, 1])"
  by (simp add: one_bid_def one_bid_heap_def sample_defs book_defs tree_defs list_defs
        limit_loop.simps Let_def)

section \<open>The counters of a tree\<close>

text \<open>
  C6 (the code departs from the claim).  After \<open>ModifyOrder\<close> moves the only resting
  BUY from 100 to 110, \<open>Depth\<close> is 1 while the price map and the price tree hold two
  prices, and \<open>NumOrders\<close> is 1 while the lengths of the lists sum to 0.  After a market
  SELL of 3 fills that BUY of 5 partially, the \<open>Volume\<close> of the bid tree is still 5 while
  its only list has the volume 2.
\<close>

theorem counters_diverge:
  "(case one_bid of
      None \<Rightarrow> None
    | Some (b, h) \<Rightarrow>
        map_option
          (\<lambda>(b', h'). (Depth (Bids b'), length (PriceMap (Bids b')), length (PriceTree (Bids b')),
                       NumOrders (Bids b'), sum_Len (Bids b') h'))
          (ModifyOrder store_ok 11 1 1 b h))
   = Some (1, 2, 2, 1, 0)
   \<and>
   (case one_bid of
      None \<Rightarrow> None
    | Some (b, h) \<Rightarrow>
        map_option
          (\<lambda>(trades, r, b', h'). (map quantity trades, Volume (Bids b'), sum_LVolume (Bids b') h'))
          (ProcessOrder store_ok 11 2 b h))
   = Some ([3], 5, 2)"
  by (simp add: one_bid_def one_bid_heap_def sample_defs book_defs tree_defs list_defs
        limit_loop.simps market_loop.simps ProcessOrderList.simps sum_Len_def sum_LVolume_def
        Let_def)

section \<open>Limit orders\<close>

text \<open>
  What \<open>ProcessLimitOrder\<close> does with the value \<open>remaining\<close> that its loop hands back:
  when it is positive and the call returns, the order gets the id \<open>NextOrderID\<close> of the
  book (which the call does not change, and which \<open>ProcessOrder\<close> has incremented before
  it calls \<open>ProcessLimitOrder\<close>) and the quantity \<open>remaining\<close>, becomes the tail of the
  list at its price on its own side, and is the residual.
\<close>

lemma rest_of_limit_order:
  assumes side: "Side (orders h quote) = Bid \<or> Side (orders h quote) = Ask"
    and loop: "limit_loop (if Side (orders h quote) = Bid then Ask else Bid)
                 (Price (orders h quote)) (Quantity (orders h quote)) quote [] b h
               = Some (remaining, trades, b1, h1)"
    and rem: "0 < remaining"
    and ret: "ProcessLimitOrder db quote b h = Some (trades', res, b', h')"
  shows "trades' = trades \<and> res = InBook quote
     \<and> OrderID (orders h' quote) = NextOrderID b \<and> NextOrderID b' = NextOrderID b
     \<and> Quantity (orders h' quote) = remaining
     \<and> (\<exists>l. PriceList (Price (orders h' quote))
                (if Side (orders h quote) = Bid then Bids b' else Asks b') = Some l
            \<and> OrderList (orders h' quote) = Some l \<and> TOrder (lists h' l) = Some quote)
     \<and> (SaveOrder_ok db \<and> SaveList_ok db \<longrightarrow>
           map_of (OrderMap (if Side (orders h quote) = Bid then Bids b' else Asks b'))
             (NextOrderID b) = Some quote)
     \<and> (if Side (orders h quote) = Bid then Asks b' = Asks b1 else Bids b' = Bids b1)
     \<and> (\<forall>now b0 h0. Type (orders h0 quote) \<noteq> ''market'' \<longrightarrow>
           ProcessOrder db now quote b0 h0 =
             ProcessLimitOrder db quote (b0\<lparr>Time := now, NextOrderID := NextOrderID b0 + 1\<rparr>)
               (set_order quote (\<lambda>x. x\<lparr>UpdatedAt := now\<rparr>) h0))"
proof -
  let ?own = "if Side (orders h quote) = Bid then Bid else Ask"
  have ab: "Ask \<noteq> Bid" by (simp add: Ask_def Bid_def)
  have rest: "rest_order db ?own quote remaining trades b1 h1 = Some (trades', res, b', h')"
    using ret loop side ab by (auto simp: ProcessLimitOrder_def Let_def split: if_splits)
  have id1: "NextOrderID b1 = NextOrderID b"
    using limit_loop_consumes[OF loop] by (simp add: consumes_def)
  let ?h2 = "set_order quote (\<lambda>x. x\<lparr>Quantity := remaining\<rparr>)
               (set_order quote (\<lambda>x. x\<lparr>OrderID := NextOrderID b1\<rparr>) h1)"
  let ?t = "if Side (orders h quote) = Bid then Bids b1 else Asks b1"
  from rest rem ab obtain err t where ins: "InsertOrder db quote ?t ?h2 = Some (err, t, h')"
    and out: "trades' = trades" "res = InBook quote"
      "b' = (if Side (orders h quote) = Bid then b1\<lparr>Bids := t\<rparr> else b1\<lparr>Asks := t\<rparr>)"
    by (auto simp: rest_order_def Let_def split: option.splits if_splits)
  have h2: "OrderID (orders ?h2 quote) = NextOrderID b" "Quantity (orders ?h2 quote) = remaining"
    by (simp_all add: set_order_def id1)
  from InsertOrder_result[OF ins]
  have c: "same_core ?h2 h'"
    and l: "\<exists>l. map_of (PriceMap t) (Price (orders ?h2 quote)) = Some l
             \<and> OrderList (orders h' quote) = Some l \<and> TOrder (lists h' l) = Some quote"
    and om: "SaveOrder_ok db \<and> SaveList_ok db \<longrightarrow>
           map_of (OrderMap t) (OrderID (orders ?h2 quote)) = Some quote"
    by blast+
  have f: "OrderID (orders h' quote) = NextOrderID b" "Quantity (orders h' quote) = remaining"
      "Price (orders h' quote) = Price (orders ?h2 quote)"
    using same_core_fields[OF c, of quote] h2 by simp_all
  have own: "(if Side (orders h quote) = Bid then Bids b' else Asks b') = t"
    using out(3) by simp
  have other: "if Side (orders h quote) = Bid then Asks b' = Asks b1 else Bids b' = Bids b1"
    using out(3) by simp
  have nid: "NextOrderID b' = NextOrderID b"
    using out(3) id1 by simp
  show ?thesis
    unfolding own PriceList_def
    using out(1,2) f l om h2(1) other nid ProcessOrder_limit by auto
qed


text \<open>
  C3 (the code departs from the claim).  A SELL of 4 rests at 100 and a limit BUY of 7 at
  100 comes in.  The loop trades 4 and empties the asks, but the value it hands back is
  still 7, because \<open>ProcessOrderList\<close> does not reduce it when it consumes a whole order:
  the BUY rests with the id 2 in the bids and is returned as the residual, with the quantity
  7 and not the unmatched 3.
\<close>

theorem limit_order_rests_with_full_quantity:
  "(case ask_100 of
      None \<Rightarrow> None
    | Some (b, h) \<Rightarrow>
        map_option
          (\<lambda>(trades, res, b', h').
              (map quantity trades, res, Quantity (orders h' 1), OrderID (orders h' 1),
               OrderMap (Bids b'), OrderMap (Asks b')))
          (ProcessOrder store_ok 11 1 b h))
   = Some ([4], InBook 1, 7, 2, [(2, 1)], [])"
  by (simp add: ask_100_def ask_100_heap_def sample_defs book_defs tree_defs list_defs
        limit_loop.simps ProcessOrderList.simps Let_def)

section \<open>The list invariant\<close>

lemma first_or_simps [simp]: "first_or [] d = d" "first_or (y # ys) d = Some y"
  by (simp_all add: first_or_def)

lemma last_or_simps [simp]: "last_or [] d = d" "xs \<noteq> [] \<Longrightarrow> last_or xs d = Some (last xs)"
  by (simp_all add: last_or_def)

lemma first_or_append: "first_or (ys @ zs) d = first_or ys (first_or zs d)"
  by (cases ys) simp_all

lemma seg_append:
  "seg os prev (ys @ zs) nxt = (seg os prev ys (first_or zs nxt) \<and> seg os (last_or ys prev) zs nxt)"
proof (induction ys arbitrary: prev)
  case Nil
  show ?case by simp
next
  case (Cons y ys)
  show ?case
    by (cases "ys = []") (auto simp: Cons.IH first_or_append)
qed

lemma seg_frame:
  "(\<And>x. x \<in> set xs \<Longrightarrow> NextOrder (os' x) = NextOrder (os x) \<and> PrevOrder (os' x) = PrevOrder (os x))
     \<Longrightarrow> seg os' prev xs nxt = seg os prev xs nxt"
  by (induction xs arbitrary: prev) auto

lemma seg_set_nxt:
  assumes "seg os prev ys nxt" "ys \<noteq> []" "distinct ys"
    and "\<And>x. x \<in> set ys \<Longrightarrow> PrevOrder (os' x) = PrevOrder (os x)"
    and "\<And>x. x \<in> set ys \<Longrightarrow> x \<noteq> last ys \<Longrightarrow> NextOrder (os' x) = NextOrder (os x)"
    and "NextOrder (os' (last ys)) = nxt'"
  shows "seg os' prev ys nxt'"
  using assms
proof (induction ys arbitrary: prev)
  case Nil
  then show ?case by simp
next
  case (Cons y ys)
  show ?case
  proof (cases "ys = []")
    case True
    with Cons.prems show ?thesis by simp
  next
    case False
    then have l: "last (y # ys) = last ys" by simp
    have ne: "y \<noteq> last ys" using Cons.prems(3) False by auto
    have "seg os' (Some y) ys nxt'"
      using Cons.prems False l by (intro Cons.IH) auto
    moreover have "NextOrder (os' y) = NextOrder (os y)"
      using Cons.prems(5)[of y] ne l by simp
    ultimately show ?thesis
      using Cons.prems False by (cases ys) auto
  qed
qed

lemma seg_set_prev:
  assumes "seg os prev zs nxt" "zs \<noteq> []" "distinct zs"
    and "\<And>x. x \<in> set zs \<Longrightarrow> NextOrder (os' x) = NextOrder (os x)"
    and "\<And>x. x \<in> set zs \<Longrightarrow> x \<noteq> hd zs \<Longrightarrow> PrevOrder (os' x) = PrevOrder (os x)"
    and "PrevOrder (os' (hd zs)) = prev'"
  shows "seg os' prev' zs nxt"
proof -
  obtain z zs' where zs: "zs = z # zs'" using assms(2) by (cases zs) auto
  have "seg os' (Some z) zs' nxt = seg os (Some z) zs' nxt"
    using assms(3,4,5) zs by (intro seg_frame) auto
  then show ?thesis
    using assms zs by auto
qed


lemma orders_set_order [simp]: "orders (set_order r f h) = (orders h)(r := f (orders h r))"
  by (simp add: set_order_def)

lemma lists_set_order [simp]: "lists (set_order r f h) = lists h"
  by (simp add: set_order_def)

lemma orders_set_list [simp]: "orders (set_list r f h) = orders h"
  by (simp add: set_list_def)

lemma lists_set_list [simp]: "lists (set_list r f h) = (lists h)(r := f (lists h r))"
  by (simp add: set_list_def)


lemma RemoveOrder_dll:
  assumes d: "dll h l xs" and x: "x \<in> set xs"
  shows "dll (RemoveOrder l x h) l (remove1 x xs)"
proof -
  from x obtain ys zs where xs: "xs = ys @ x # zs" and ys: "x \<notin> set ys"
    by (meson split_list_first)
  from d have dist: "distinct xs" and len: "Len (lists h l) = int (length xs)"
    and s: "seg (orders h) None xs None"
    and ht: "HOrder (lists h l) = Some (hd xs)" "TOrder (lists h l) = Some (last xs)"
    using x by (auto simp: dll_def)
  have rm: "remove1 x xs = ys @ zs"
    using xs ys by (simp add: remove1_append)
  have zs: "x \<notin> set zs" and disj: "set ys \<inter> set zs = {}" and dy: "distinct ys" and dz: "distinct zs"
    using dist xs by auto
  from s xs have sy: "seg (orders h) None ys (Some x)"
    and px: "PrevOrder (orders h x) = last_or ys None"
    and nx: "NextOrder (orders h x) = first_or zs None"
    and sz: "seg (orders h) (Some x) zs None"
    by (simp_all add: seg_append)
  let ?h1 = "set_list l (\<lambda>l. l\<lparr>LVolume := LVolume l - Quantity (orders h x), Len := Len l - 1\<rparr>) h"
  have len1: "Len (lists ?h1 l) = int (length (ys @ zs))"
    using len xs by simp
  show ?thesis
  proof (cases "ys = []")
    case yn: True
    show ?thesis
    proof (cases "zs = []")
      case True
      with yn xs len show ?thesis
        by (simp add: RemoveOrder_def dll_def)
    next
      case False
      then obtain z zs' where z: "zs = z # zs'" by (cases zs) auto
      let ?h' = "set_list l (\<lambda>l. l\<lparr>HOrder := Some z\<rparr>)
                   (set_order z (\<lambda>y. y\<lparr>PrevOrder := None\<rparr>) ?h1)"
      have run: "RemoveOrder l x h = ?h'"
        using len1 z yn px nx by (simp add: RemoveOrder_def Let_def)
      have "seg (orders ?h') None zs None"
        by (rule seg_set_prev[OF sz False dz]) (auto simp: z)
      then show ?thesis
        using run rm yn z dz len1 ht(2) xs by (simp add: dll_def)
    qed
  next
    case yn: False
    show ?thesis
    proof (cases "zs = []")
      case True
      let ?p = "last ys"
      let ?h' = "set_list l (\<lambda>l. l\<lparr>TOrder := Some ?p\<rparr>)
                   (set_order ?p (\<lambda>y. y\<lparr>NextOrder := None\<rparr>) ?h1)"
      have run: "RemoveOrder l x h = ?h'"
        using len1 True yn px nx by (simp add: RemoveOrder_def Let_def)
      have "seg (orders ?h') None ys None"
        by (rule seg_set_nxt[OF sy yn dy]) auto
      then show ?thesis
        using run rm yn True dy len1 ht(1) xs by (simp add: dll_def)
    next
      case False
      then obtain z zs' where z: "zs = z # zs'" by (cases zs) auto
      let ?p = "last ys"
      have "?p \<in> set ys" using yn by simp
      then have pz: "?p \<noteq> z" "?p \<notin> set zs" "z \<notin> set ys"
        using disj z by auto
      let ?h' = "set_order ?p (\<lambda>y. y\<lparr>NextOrder := Some z\<rparr>)
                   (set_order z (\<lambda>y. y\<lparr>PrevOrder := Some ?p\<rparr>) ?h1)"
      have run: "RemoveOrder l x h = ?h'"
        using len1 z yn px nx by (simp add: RemoveOrder_def Let_def)
      have a: "seg (orders ?h') None ys (Some z)"
        by (rule seg_set_nxt[OF sy yn dy]) (use pz in auto)
      have b: "seg (orders ?h') (Some ?p) zs None"
        by (rule seg_set_prev[OF sz False dz]) (use pz z in auto)
      have "seg (orders ?h') None (ys @ zs) None"
        using a b yn z by (simp add: seg_append)
      then show ?thesis
        using run rm yn z dy dz disj len1 ht xs by (simp add: dll_def)
    qed
  qed
qed





text \<open>
  \<open>MoveToTail\<close> does not reset the links of the order it moves: the new tail still points
  at its old successor.
\<close>

lemma MoveToTail_leaves_cycle:
  "\<exists>h'. run_list_ops 0 [OpAppend 0, OpAppend 1, OpMoveToTail 0] two_bids_heap = Some h'
       \<and> TOrder (lists h' 0) = Some 0 \<and> NextOrder (orders h' 0) = Some 1
       \<and> NextOrder (orders h' 1) = Some 0 \<and> \<not> claimed_list_inv h' 0"
  by (simp add: two_bids_heap_def sample_defs list_defs claimed_list_inv_def)



section \<open>The price tree\<close>

lemma set_Put: "set (Put k v t) \<subseteq> insert (k, v) (set t)"
  by (induction t) (auto split: if_splits)

lemma Put_fresh:
  "k \<notin> fst ` set t \<Longrightarrow> set (Put k v t) = insert (k, v) (set t) \<and> length (Put k v t) = Suc (length t)"
  by (induction t) (auto split: if_splits)

lemma sorted_Put:
  "sorted_wrt (<) (map fst t) \<Longrightarrow> sorted_wrt (<) (map fst (Put k v t))"
proof (induction t)
  case Nil
  then show ?case by simp
next
  case (Cons a t)
  obtain k' v' where a: "a = (k', v')" by (cases a)
  have "\<forall>x \<in> set (Put k v t). k' < fst x" if "k' < k"
    using Cons.prems a that set_Put[of k v t] by auto
  with Cons a show ?case by auto
qed

lemma map_of_Put: "map_of (Put k v t) = (map_of t)(k \<mapsto> v)"
  by (induction t) (auto simp: fun_eq_iff)

lemma sorted_delete:
  "sorted_wrt (<) (map fst t) \<Longrightarrow> sorted_wrt (<) (map fst (AList.delete k t))"
  by (induction t) (auto simp: AList.delete_eq)

lemma sorted_distinct: "sorted_wrt (<) (map fst (t :: price_tree)) \<Longrightarrow> distinct (map fst t)"
  by (induction t) auto

lemma sorted_map_of:
  "sorted_wrt (<) (map fst (t :: price_tree)) \<Longrightarrow> (map_of t p = Some l) = ((p, l) \<in> set t)"
  using sorted_distinct[of t] by (auto intro: map_of_is_SomeI dest: map_of_SomeD)

lemma length_delete:
  "distinct (map fst t) \<Longrightarrow> k \<in> fst ` set t \<Longrightarrow> Suc (length (AList.delete k t)) = length t"
proof (induction t)
  case Nil
  then show ?case by simp
next
  case (Cons a t)
  show ?case
  proof (cases "fst a = k")
    case True
    then have "k \<notin> fst ` set t" using Cons.prems(1) by auto
    then have "AList.delete k t = t"
      by (induction t) auto
    with True show ?thesis by simp
  next
    case False
    with Cons show ?thesis by auto
  qed
qed

lemma set_delete: "set (AList.delete k t) = {x \<in> set t. fst x \<noteq> k}"
  by (auto simp: AList.delete_eq)

lemma sorted_hd_min:
  "sorted_wrt (<) (map fst (t :: price_tree)) \<Longrightarrow> x \<in> set t \<Longrightarrow> fst (hd t) \<le> fst x"
  by (cases t) auto

lemma sorted_last_max:
  "sorted_wrt (<) (map fst (t :: price_tree)) \<Longrightarrow> x \<in> set t \<Longrightarrow> fst x \<le> fst (last t)"
proof (induction t)
  case Nil
  then show ?case by simp
next
  case (Cons a t)
  show ?case
  proof (cases "t = []")
    case True
    with Cons.prems show ?thesis by simp
  next
    case False
    then have l: "last t \<in> set t" by simp
    show ?thesis
    proof (cases "x = a")
      case True
      with Cons.prems(1) l False show ?thesis by (auto simp: less_imp_le)
    next
      case ne: False
      with Cons False show ?thesis by auto
    qed
  qed
qed

section \<open>Well-formed trees stay well-formed\<close>

lemma dll_cong:
  assumes "dll h l xs" and "list_eqv (lists h' l) (lists h l)"
    and "\<And>x. x \<in> set xs \<Longrightarrow> NextOrder (orders h' x) = NextOrder (orders h x)
                                  \<and> PrevOrder (orders h' x) = PrevOrder (orders h x)"
  shows "dll h' l xs"
proof -
  have "seg (orders h') None xs None = seg (orders h) None xs None"
    using assms(3) by (intro seg_frame) auto
  with assms(1,2) show ?thesis
    by (simp add: dll_def list_eqv_def)
qed

lemma wf_pricesD:
  assumes "wf_prices t h"
  shows "sorted_wrt (<) (map fst (PriceTree t))" "Depth t = int (length (PriceTree t))"
    "map_of (PriceMap t) = map_of (PriceTree t)"
    "\<And>p l. (p, l) \<in> set (PriceTree t) \<Longrightarrow> LPrice (lists h l) = p \<and> l < nextList h"
  using assms unfolding wf_prices_def by blast+

lemma wf_listsD:
  assumes "wf_lists mem t h" "(p, l) \<in> set (PriceTree t)"
  shows "mem l \<noteq> []" "dll h l (mem l)"
    "\<And>x. x \<in> set (mem l) \<Longrightarrow> OrderList (orders h x) = Some l \<and> Price (orders h x) = p
              \<and> map_of (OrderMap t) (OrderID (orders h x)) = Some x"
  using assms unfolding wf_lists_def by blast+

lemma wf_ordersD:
  assumes "wf_orders mem t h" "map_of (OrderMap t) i = Some x"
  shows "OrderID (orders h x) = i" "x \<in> tree_orders mem t"
  using assms unfolding wf_orders_def by blast+

lemma wf_treeD:
  assumes "wf_tree mem t h"
  shows "wf_prices t h" "wf_lists mem t h" "wf_orders mem t h"
  using assms unfolding wf_tree_def by blast+

lemma wf_listsI:
  assumes "\<And>p l. (p, l) \<in> set (PriceTree t) \<Longrightarrow>
     mem l \<noteq> [] \<and> dll h l (mem l)
     \<and> (\<forall>x \<in> set (mem l). OrderList (orders h x) = Some l \<and> Price (orders h x) = p
              \<and> map_of (OrderMap t) (OrderID (orders h x)) = Some x)"
  shows "wf_lists mem t h"
  unfolding wf_lists_def using assms by blast

lemma wf_ordersI:
  assumes "\<And>i x. map_of (OrderMap t) i = Some x \<Longrightarrow>
     OrderID (orders h x) = i \<and> x \<in> tree_orders mem t"
  shows "wf_orders mem t h"
  unfolding wf_orders_def using assms by blast

lemma wf_pricesI:
  assumes "sorted_wrt (<) (map fst (PriceTree t))" "Depth t = int (length (PriceTree t))"
    "map_of (PriceMap t) = map_of (PriceTree t)"
    "\<And>p l. (p, l) \<in> set (PriceTree t) \<Longrightarrow> LPrice (lists h l) = p \<and> l < nextList h"
  shows "wf_prices t h"
  unfolding wf_prices_def using assms by blast

lemma tree_listsI: "(p, l) \<in> set (PriceTree t) \<Longrightarrow> l \<in> tree_lists t"
  unfolding tree_lists_def by force

lemma tree_ordersI: "(p, l) \<in> set (PriceTree t) \<Longrightarrow> x \<in> set (mem l) \<Longrightarrow> x \<in> tree_orders mem t"
  unfolding tree_orders_def tree_lists_def by force

lemma tree_ordersE:
  assumes "x \<in> tree_orders mem t"
  obtains p l where "(p, l) \<in> set (PriceTree t)" "x \<in> set (mem l)"
  using assms unfolding tree_orders_def tree_lists_def by auto

lemma tree_orders_cong:
  "(\<And>l. l \<in> tree_lists t \<Longrightarrow> mem' l = mem l) \<Longrightarrow> tree_orders mem' t = tree_orders mem t"
  by (simp add: tree_orders_def)

lemma wf_tree_cong:
  assumes wf: "wf_tree mem t h"
    and L: "\<And>l. l \<in> tree_lists t \<Longrightarrow> list_eqv (lists h' l) (lists h l) \<and> mem' l = mem l"
    and O: "\<And>x. x \<in> tree_orders mem t \<Longrightarrow> order_eqv (orders h' x) (orders h x)"
    and N: "nextList h \<le> nextList h'"
  shows "wf_tree mem' t h'"
proof -
  note P = wf_pricesD[OF wf_treeD(1)[OF wf]]
  note Ls = wf_listsD[OF wf_treeD(2)[OF wf]]
  note Os = wf_ordersD[OF wf_treeD(3)[OF wf]]
  have to: "tree_orders mem' t = tree_orders mem t"
    using L by (intro tree_orders_cong) simp
  have wp: "wf_prices t h'"
  proof (rule wf_pricesI)
    fix p l assume pl: "(p, l) \<in> set (PriceTree t)"
    from L[OF tree_listsI[OF pl]] have "LPrice (lists h' l) = LPrice (lists h l)"
      by (simp add: list_eqv_def)
    with P(4)[OF pl] N show "LPrice (lists h' l) = p \<and> l < nextList h'" by simp
  qed (rule P(1) P(2) P(3))+
  have wl: "wf_lists mem' t h'"
  proof (rule wf_listsI)
    fix p l assume pl: "(p, l) \<in> set (PriceTree t)"
    have m: "mem' l = mem l" and le: "list_eqv (lists h' l) (lists h l)"
      using L[OF tree_listsI[OF pl]] by simp_all
    have e: "order_eqv (orders h' x) (orders h x)" if "x \<in> set (mem l)" for x
      by (rule O) (rule tree_ordersI[where mem = mem, OF pl that])
    have d: "dll h' l (mem l)"
    proof (rule dll_cong[OF Ls(2)[OF pl] le])
      fix x assume "x \<in> set (mem l)"
      from e[OF this] show "NextOrder (orders h' x) = NextOrder (orders h x)
                                  \<and> PrevOrder (orders h' x) = PrevOrder (orders h x)"
        by (simp add: order_eqv_def)
    qed
    have f: "OrderList (orders h' x) = Some l \<and> Price (orders h' x) = p
              \<and> map_of (OrderMap t) (OrderID (orders h' x)) = Some x" if "x \<in> set (mem l)" for x
      using Ls(3)[OF pl that] e[OF that] by (simp add: order_eqv_def)
    show "mem' l \<noteq> [] \<and> dll h' l (mem' l)
        \<and> (\<forall>x \<in> set (mem' l). OrderList (orders h' x) = Some l \<and> Price (orders h' x) = p
              \<and> map_of (OrderMap t) (OrderID (orders h' x)) = Some x)"
      unfolding m using Ls(1)[OF pl] d f by blast
  qed
  have wo: "wf_orders mem' t h'"
  proof (rule wf_ordersI)
    fix i x assume ix: "map_of (OrderMap t) i = Some x"
    from Os(2)[OF ix] have x: "x \<in> tree_orders mem t" .
    from O[OF x] Os(1)[OF ix] x show "OrderID (orders h' x) = i \<and> x \<in> tree_orders mem' t"
      unfolding to by (simp add: order_eqv_def)
  qed
  show ?thesis using wp wl wo by (simp add: wf_tree_def)
qed

lemma seg_links_in:
  assumes "seg os prev xs nxt" "x \<in> set xs"
  shows "NextOrder (os x) = Some n \<Longrightarrow> n \<in> set xs \<or> nxt = Some n"
    and "PrevOrder (os x) = Some p \<Longrightarrow> p \<in> set xs \<or> prev = Some p"
proof -
  from assms(2) obtain ys zs where xs: "xs = ys @ x # zs" by (meson split_list)
  from assms(1) have nx: "NextOrder (os x) = first_or zs nxt" and px: "PrevOrder (os x) = last_or ys prev"
    unfolding xs by (simp_all add: seg_append)
  show "NextOrder (os x) = Some n \<Longrightarrow> n \<in> set xs \<or> nxt = Some n"
    using nx xs by (cases zs) auto
  show "PrevOrder (os x) = Some p \<Longrightarrow> p \<in> set xs \<or> prev = Some p"
    using px xs by (cases "ys = []") auto
qed

lemma RemoveOrder_orders:
  "orders (RemoveOrder l x h) y = orders h y
   \<or> NextOrder (orders h x) = Some y \<or> PrevOrder (orders h x) = Some y"
  by (auto simp: RemoveOrder_def Let_def split: option.splits)

lemma RemoveOrder_outside:
  assumes "dll h l xs" "x \<in> set xs" "y \<notin> set xs"
  shows "orders (RemoveOrder l x h) y = orders h y"
proof -
  from assms(1) have s: "seg (orders h) None xs None" by (simp add: dll_def)
  from seg_links_in[OF s assms(2)] assms(3) RemoveOrder_orders[of l x h y]
  show ?thesis by auto
qed

lemma RemoveOrder_fields:
  "OrderList (orders (RemoveOrder l x h) y) = OrderList (orders h y)
   \<and> Price (orders (RemoveOrder l x h) y) = Price (orders h y)
   \<and> OrderID (orders (RemoveOrder l x h) y) = OrderID (orders h y)"
  by (auto simp: RemoveOrder_def Let_def split: option.splits)

lemma RemoveOrder_lists:
  "(l' \<noteq> l \<longrightarrow> lists (RemoveOrder l x h) l' = lists h l')
   \<and> LPrice (lists (RemoveOrder l x h) l') = LPrice (lists h l')"
  by (auto simp: RemoveOrder_def Let_def split: option.splits)

lemma length_delete_less:
  "k \<in> fst ` set m \<Longrightarrow> length (AList.delete k m) < length m"
proof (induction m)
  case Nil
  then show ?case by simp
next
  case (Cons a m)
  have "length (AList.delete k m) \<le> length m"
    by (simp add: AList.delete_eq)
  with Cons show ?case by (cases "fst a = k") auto
qed

lemma dll_distinct: "dll h l xs \<Longrightarrow> distinct xs"
  by (simp add: dll_def)

lemma dll_Len: "dll h l xs \<Longrightarrow> Len (lists h l) = int (length xs)"
  by (simp add: dll_def)

lemma RemoveOrderById_wf:
  assumes T: "wf_tree mem t h" and U: "wf_tree mem u h"
    and D: "tree_lists t \<inter> tree_lists u = {}"
    and pl: "(p, l) \<in> set (PriceTree t)" and x: "x \<in> set (mem l)"
  shows "\<exists>t' h'. RemoveOrderById (OrderID (orders h x)) t h = Some (t', h')
           \<and> wf_tree (mem(l := remove1 x (mem l))) t' h'
           \<and> wf_tree (mem(l := remove1 x (mem l))) u h'
           \<and> PriceTree t' = (if remove1 x (mem l) = [] then AList.delete p (PriceTree t)
                               else PriceTree t)
           \<and> Len (lists h' l) = int (length (remove1 x (mem l)))
           \<and> length (OrderMap t') < length (OrderMap t)
           \<and> nextList h' = nextList h
           \<and> (\<forall>l'. LPrice (lists h' l') = LPrice (lists h l'))"
proof -
  note P = wf_pricesD[OF wf_treeD(1)[OF T]]
  note Ls = wf_listsD[OF wf_treeD(2)[OF T]]
  note Os = wf_ordersD[OF wf_treeD(3)[OF T]]
  let ?i = "OrderID (orders h x)"
  let ?rest = "remove1 x (mem l)"
  let ?mem = "mem(l := ?rest)"
  let ?h' = "RemoveOrder l x h"
  let ?t2 = "t\<lparr>NumOrders := NumOrders t - 1, Volume := Volume t - Quantity (orders h x)\<rparr>"
  let ?t3 = "if ?rest = [] then RemovePrice p ?t2 else ?t2"
  let ?t' = "?t3\<lparr>OrderMap := AList.delete ?i (OrderMap ?t3)\<rparr>"
  have xf: "OrderList (orders h x) = Some l" "Price (orders h x) = p"
    "map_of (OrderMap t) ?i = Some x"
    using Ls(3)[OF pl x] by simp_all
  have d: "dll h l (mem l)" by (rule Ls(2)[OF pl])
  have dist: "distinct (mem l)" by (rule dll_distinct[OF d])
  have d': "dll ?h' l ?rest" by (rule RemoveOrder_dll[OF d x])
  have len': "Len (lists ?h' l) = int (length ?rest)" by (rule dll_Len[OF d'])
  have fields: "OrderList (orders ?h' y) = OrderList (orders h y)"
    "Price (orders ?h' y) = Price (orders h y)" "OrderID (orders ?h' y) = OrderID (orders h y)" for y
    using RemoveOrder_fields[of l x h y] by simp_all
  have run: "RemoveOrderById ?i t h = Some (?t', ?h')"
    using xf len' fields(2)[of x]
    by (simp add: RemoveOrderById_def Let_def OrderList_Length_def)
  have keys: "distinct (map fst (PriceTree t))" by (rule sorted_distinct[OF P(1)])
  have pt: "PriceTree ?t' = (if ?rest = [] then AList.delete p (PriceTree t) else PriceTree t)"
    and pm: "PriceMap ?t' = (if ?rest = [] then AList.delete p (PriceMap t) else PriceMap t)"
    and dp: "Depth ?t' = (if ?rest = [] then Depth t - 1 else Depth t)"
    and om: "OrderMap ?t' = AList.delete ?i (OrderMap t)"
    by (simp_all add: RemovePrice_def Remove_def)
  have sub: "(p', l') \<in> set (PriceTree t)" "l' = l \<Longrightarrow> ?rest \<noteq> []"
    if "(p', l') \<in> set (PriceTree ?t')" for p' l'
  proof -
    show a: "(p', l') \<in> set (PriceTree t)"
      using that unfolding pt by (auto simp: set_delete split: if_splits)
    show "?rest \<noteq> []" if e: "l' = l"
    proof
      assume r: "?rest = []"
      from P(4)[OF a] P(4)[OF pl] e have "p' = p" by simp
      with that r \<open>(p', l') \<in> set (PriceTree ?t')\<close> show False
        unfolding pt by (auto simp: set_delete)
    qed
  qed
  have sup: "(p', l') \<in> set (PriceTree ?t')"
    if a: "(p', l') \<in> set (PriceTree t)" and ne: "l' \<noteq> l \<or> ?rest \<noteq> []" for p' l'
  proof (cases "?rest = []")
    case True
    with ne have "l' \<noteq> l" by simp
    have "p' \<noteq> p"
    proof
      assume "p' = p"
      with a pl have "map_of (PriceTree t) p = Some l'" "map_of (PriceTree t) p = Some l"
        by (simp_all add: sorted_map_of[OF P(1)])
      then have "l' = l" by simp
      with \<open>l' \<noteq> l\<close> show False by simp
    qed
    with a True show ?thesis unfolding pt by (simp add: set_delete)
  next
    case False
    with a show ?thesis unfolding pt by simp
  qed
  have other_list: "y \<notin> set (mem l)" if "(p', l') \<in> set (PriceTree t)" "l' \<noteq> l" "y \<in> set (mem l')" for p' l' y
  proof
    assume "y \<in> set (mem l)"
    from Ls(3)[OF pl this] Ls(3)[OF that(1) that(3)] that(2) show False by simp
  qed
  have id_ne: "OrderID (orders h y) \<noteq> ?i"
    if "(p', l') \<in> set (PriceTree t)" "y \<in> set (mem l')" "y \<noteq> x" for p' l' y
    using Ls(3)[OF that(1) that(2)] xf(3) that(3) by auto
  have wp: "wf_prices ?t' ?h'"
  proof (rule wf_pricesI)
    show "sorted_wrt (<) (map fst (PriceTree ?t'))"
      unfolding pt using P(1) by (simp add: sorted_delete)
    show "Depth ?t' = int (length (PriceTree ?t'))"
    proof (cases "?rest = []")
      case True
      have "p \<in> fst ` set (PriceTree t)" using pl by force
      from length_delete[OF keys this] True P(2) show ?thesis
        unfolding pt dp by simp
    next
      case False
      with P(2) show ?thesis unfolding pt dp by simp
    qed
    show "map_of (PriceMap ?t') = map_of (PriceTree ?t')"
      unfolding pt pm using P(3) by (simp add: delete_conv')
    fix p' l' assume a: "(p', l') \<in> set (PriceTree ?t')"
    from P(4)[OF sub(1)[OF a]] RemoveOrder_lists[of l' l x h]
    show "LPrice (lists ?h' l') = p' \<and> l' < nextList ?h'" by simp
  qed
  have wl: "wf_lists ?mem ?t' ?h'"
  proof (rule wf_listsI)
    fix p' l' assume a: "(p', l') \<in> set (PriceTree ?t')"
    note a0 = sub(1)[OF a]
    show "?mem l' \<noteq> [] \<and> dll ?h' l' (?mem l')
        \<and> (\<forall>y \<in> set (?mem l'). OrderList (orders ?h' y) = Some l' \<and> Price (orders ?h' y) = p'
              \<and> map_of (OrderMap ?t') (OrderID (orders ?h' y)) = Some y)"
    proof (cases "l' = l")
      case True
      from sub(2)[OF a True] have ne: "?rest \<noteq> []" .
      have m: "OrderList (orders ?h' y) = Some l' \<and> Price (orders ?h' y) = p'
              \<and> map_of (OrderMap ?t') (OrderID (orders ?h' y)) = Some y" if y: "y \<in> set ?rest" for y
      proof -
        from y have yl: "y \<in> set (mem l')" using True by (metis notin_set_remove1)
        from y dist have yx: "y \<noteq> x" by auto
        from Ls(3)[OF a0 yl] id_ne[OF a0 yl yx] show ?thesis
          unfolding om fields by (simp add: delete_conv')
      qed
      from ne d' m True show ?thesis by simp
    next
      case False
      have m: "OrderList (orders ?h' y) = Some l' \<and> Price (orders ?h' y) = p'
              \<and> map_of (OrderMap ?t') (OrderID (orders ?h' y)) = Some y" if y: "y \<in> set (mem l')" for y
      proof -
        from other_list[OF a0 False y] x have yx: "y \<noteq> x" by auto
        from Ls(3)[OF a0 y] id_ne[OF a0 y yx] show ?thesis
          unfolding om fields by (simp add: delete_conv')
      qed
      have dl: "dll ?h' l' (mem l')"
      proof (rule dll_cong[OF Ls(2)[OF a0]])
        show "list_eqv (lists ?h' l') (lists h l')"
          using RemoveOrder_lists[of l' l x h] False by (simp add: list_eqv_def)
        fix y assume "y \<in> set (mem l')"
        from RemoveOrder_outside[OF d x other_list[OF a0 False this]]
        show "NextOrder (orders ?h' y) = NextOrder (orders h y)
               \<and> PrevOrder (orders ?h' y) = PrevOrder (orders h y)" by simp
      qed
      from Ls(1)[OF a0] dl m False show ?thesis by simp
    qed
  qed
  have wo: "wf_orders ?mem ?t' ?h'"
  proof (rule wf_ordersI)
    fix j y assume "map_of (OrderMap ?t') j = Some y"
    then have j: "j \<noteq> ?i" "map_of (OrderMap t) j = Some y"
      unfolding om by (auto simp: delete_conv' split: if_splits)
    from Os(1)[OF j(2)] j(1) have yx: "y \<noteq> x" by auto
    from Os(2)[OF j(2)] obtain p'' l'' where b: "(p'', l'') \<in> set (PriceTree t)" "y \<in> set (mem l'')"
      by (rule tree_ordersE)
    have ym: "y \<in> set (?mem l'')" using b(2) yx by auto
    then have "l'' \<noteq> l \<or> ?rest \<noteq> []" by auto
    from sup[OF b(1) this] have "(p'', l'') \<in> set (PriceTree ?t')" .
    from tree_ordersI[where mem = ?mem, OF this ym] Os(1)[OF j(2)]
    show "OrderID (orders ?h' y) = j \<and> y \<in> tree_orders ?mem ?t'"
      unfolding fields by simp
  qed
  have wt: "wf_tree ?mem ?t' ?h'"
    using wp wl wo by (simp add: wf_tree_def)
  have lt: "l \<in> tree_lists t" by (rule tree_listsI[OF pl])
  have wu: "wf_tree ?mem u ?h'"
  proof (rule wf_tree_cong[OF U])
    fix l' assume "l' \<in> tree_lists u"
    with D lt have "l' \<noteq> l" by auto
    with RemoveOrder_lists[of l' l x h]
    show "list_eqv (lists ?h' l') (lists h l') \<and> ?mem l' = mem l'"
      by (simp add: list_eqv_def)
  next
    fix y assume "y \<in> tree_orders mem u"
    then obtain pu lu where b: "(pu, lu) \<in> set (PriceTree u)" "y \<in> set (mem lu)"
      by (rule tree_ordersE)
    from tree_listsI[OF b(1)] D lt have ne: "lu \<noteq> l" by auto
    have "y \<notin> set (mem l)"
    proof
      assume "y \<in> set (mem l)"
      from Ls(3)[OF pl this] wf_listsD(3)[OF wf_treeD(2)[OF U] b] ne show False by simp
    qed
    from RemoveOrder_outside[OF d x this] show "order_eqv (orders ?h' y) (orders h y)"
      by (simp add: order_eqv_def)
  next
    show "nextList h \<le> nextList ?h'" by simp
  qed
  have lo: "length (OrderMap ?t') < length (OrderMap t)"
    unfolding om using xf(3) by (intro length_delete_less) (auto dest: map_of_SomeD intro: rev_image_eqI)
  have lp: "\<forall>l'. LPrice (lists ?h' l') = LPrice (lists h l')"
    using RemoveOrder_lists by simp
  show ?thesis
    using run wt wu pt len' lo lp by (intro exI[of _ ?t'] exI[of _ ?h']) simp
qed

lemma wf_book_side:
  "wf_book mem b h =
     (wf_tree mem (side_tree side b) h \<and> wf_tree mem (other_tree side b) h
      \<and> tree_lists (side_tree side b) \<inter> tree_lists (other_tree side b) = {})"
  by (auto simp: wf_book_def side_tree_def other_tree_def)

lemma tree_lists_delete: "set (AList.delete k t) \<subseteq> set t"
  by (auto simp: AList.delete_eq)

lemma RemoveOrderById_side_wf:
  assumes W: "wf_book mem b h"
    and pl: "(p, l) \<in> set (PriceTree (side_tree side b))" and x: "x \<in> set (mem l)"
  shows "\<exists>b' h'. RemoveOrderById_side side (OrderID (orders h x)) b h = Some (b', h')
           \<and> wf_book (mem(l := remove1 x (mem l))) b' h'
           \<and> PriceTree (side_tree side b') =
               (if remove1 x (mem l) = [] then AList.delete p (PriceTree (side_tree side b))
                else PriceTree (side_tree side b))
           \<and> other_tree side b' = other_tree side b
           \<and> Len (lists h' l) = int (length (remove1 x (mem l)))
           \<and> length (OrderMap (side_tree side b')) < length (OrderMap (side_tree side b))"
proof -
  from W have T: "wf_tree mem (side_tree side b) h" and U: "wf_tree mem (other_tree side b) h"
    and D: "tree_lists (side_tree side b) \<inter> tree_lists (other_tree side b) = {}"
    by (simp_all add: wf_book_side[of mem b h side])
  from RemoveOrderById_wf[OF T U D pl x] obtain t' h' where
    r: "RemoveOrderById (OrderID (orders h x)) (side_tree side b) h = Some (t', h')"
    and wt: "wf_tree (mem(l := remove1 x (mem l))) t' h'"
    and wu: "wf_tree (mem(l := remove1 x (mem l))) (other_tree side b) h'"
    and pt: "PriceTree t' = (if remove1 x (mem l) = [] then AList.delete p (PriceTree (side_tree side b))
                               else PriceTree (side_tree side b))"
    and len: "Len (lists h' l) = int (length (remove1 x (mem l)))"
    and lo: "length (OrderMap t') < length (OrderMap (side_tree side b))"
    by blast
  let ?b' = "if side = Bid then b\<lparr>Bids := t'\<rparr> else b\<lparr>Asks := t'\<rparr>"
  have run: "RemoveOrderById_side side (OrderID (orders h x)) b h = Some (?b', h')"
    using r by (cases "side = Bid") (simp_all add: RemoveOrderById_side_def side_tree_def)
  have st: "side_tree side ?b' = t'" and ot: "other_tree side ?b' = other_tree side b"
    by (simp_all add: side_tree_def other_tree_def)
  have "tree_lists t' \<subseteq> tree_lists (side_tree side b)"
    unfolding tree_lists_def pt using tree_lists_delete[of p "PriceTree (side_tree side b)"]
    by auto
  with D have D': "tree_lists t' \<inter> tree_lists (other_tree side b) = {}" by auto
  have "wf_book (mem(l := remove1 x (mem l))) ?b' h'"
    unfolding wf_book_side[of _ ?b' h' side] st ot using wt wu D' by simp
  with run pt len lo st ot show ?thesis
    by (intro exI[of _ ?b'] exI[of _ h']) simp
qed

lemma UpdateQuantity_wf:
  assumes W: "wf_book mem b h" and ol: "OrderList (orders h x) = Some l"
    and q: "newQ \<le> Quantity (orders h x)"
  shows "\<exists>h'. UpdateQuantity x newQ ts h = Some h' \<and> wf_book mem b h'"
proof -
  let ?h' = "set_order x (\<lambda>y. y\<lparr>UpdatedAt := ts, Quantity := newQ\<rparr>)
               (set_list l (\<lambda>l. l\<lparr>LVolume := LVolume l - (Quantity (orders h x) - newQ)\<rparr>) h)"
  have run: "UpdateQuantity x newQ ts h = Some ?h'"
    using ol q by (simp add: UpdateQuantity_def)
  have c: "wf_tree mem t ?h'" if "wf_tree mem t h" for t
    by (rule wf_tree_cong[OF that]) (simp_all add: list_eqv_def order_eqv_def)
  from W have "wf_book mem b ?h'"
    by (simp add: wf_book_def c)
  with run show ?thesis by blast
qed

lemma dll_head:
  "dll h l xs \<Longrightarrow> xs \<noteq> [] \<Longrightarrow> HeadOrder l h = Some (hd xs) \<and> 0 < OrderList_Length l h"
  by (simp add: dll_def HeadOrder_def OrderList_Length_def)

lemma ProcessOrderList_total:
  assumes W: "wf_book mem b h" and pl: "(p, l) \<in> set (PriceTree (side_tree side b))"
  shows "\<exists>q' ts' b' h' mem'.
           ProcessOrderList side (Some l) q quote ts b h = Some (q', ts', b', h')
           \<and> wf_book mem' b' h' \<and> other_tree side b' = other_tree side b
           \<and> length (OrderMap (side_tree side b')) \<le> length (OrderMap (side_tree side b))
           \<and> (0 < q \<longrightarrow> q' \<le> 0
                 \<or> length (OrderMap (side_tree side b')) < length (OrderMap (side_tree side b)))"
  using assms
proof (induction "length (mem l)" arbitrary: mem b h ts rule: less_induct)
  case less
  note W = less.prems(1) and pl = less.prems(2)
  from W have T: "wf_tree mem (side_tree side b) h"
    by (simp add: wf_book_side[of mem b h side])
  note Ls = wf_listsD[OF wf_treeD(2)[OF T] pl]
  let ?x = "hd (mem l)"
  have x: "?x \<in> set (mem l)" using Ls(1) by simp
  from dll_head[OF Ls(2) Ls(1)] have hd: "HeadOrder l h = Some ?x" and len: "0 < OrderList_Length l h"
    by simp_all
  show ?case
  proof (cases "0 < q")
    case False
    then have "ProcessOrderList side (Some l) q quote ts b h = Some (q, ts, b, h)"
      by (intro ProcessOrderList_stop) simp
    with W False show ?thesis by auto
  next
    case qpos: True
    let ?rec = "\<lambda>t. \<lparr>timestamp = Time b, price = Price (orders h ?x), quantity = t, time = Time b\<rparr>"
    consider (part) "q < Quantity (orders h ?x)" | (full) "q = Quantity (orders h ?x)"
      | (more) "Quantity (orders h ?x) < q"
      by linarith
    then show ?thesis
    proof cases
      case part
      from UpdateQuantity_wf[OF W _, of ?x l "Quantity (orders h ?x) - q" "UpdatedAt (orders h ?x)"]
        Ls(3)[OF x] qpos
      obtain h1 where u: "UpdateQuantity ?x (Quantity (orders h ?x) - q) (UpdatedAt (orders h ?x)) h = Some h1"
        and w1: "wf_book mem b h1" by auto
      have stop: "ProcessOrderList side (Some l) 0 quote (ts @ [?rec q]) b h1
                  = Some (0, ts @ [?rec q], b, h1)"
        by (intro ProcessOrderList_stop) simp
      have "ProcessOrderList side (Some l) q quote ts b h = Some (0, ts @ [?rec q], b, h1)"
        using len qpos hd part u stop by (subst ProcessOrderList.simps) simp
      with w1 show ?thesis by auto
    next
      case full
      from RemoveOrderById_side_wf[OF W pl x] obtain b1 h1 where
        r: "RemoveOrderById_side side (OrderID (orders h ?x)) b h = Some (b1, h1)"
        and w1: "wf_book (mem(l := remove1 ?x (mem l))) b1 h1"
        and ot: "other_tree side b1 = other_tree side b"
        and lo: "length (OrderMap (side_tree side b1)) < length (OrderMap (side_tree side b))"
        by blast
      have stop: "ProcessOrderList side (Some l) 0 quote (ts @ [?rec q]) b1 h1
                  = Some (0, ts @ [?rec q], b1, h1)"
        by (intro ProcessOrderList_stop) simp
      have "ProcessOrderList side (Some l) q quote ts b h = Some (0, ts @ [?rec q], b1, h1)"
        using len qpos hd full r stop by (subst ProcessOrderList.simps) simp
      with w1 ot lo show ?thesis by auto
    next
      case more
      from RemoveOrderById_side_wf[OF W pl x] obtain b1 h1 where
        r: "RemoveOrderById_side side (OrderID (orders h ?x)) b h = Some (b1, h1)"
        and w1: "wf_book (mem(l := remove1 ?x (mem l))) b1 h1"
        and pt: "PriceTree (side_tree side b1) =
               (if remove1 ?x (mem l) = [] then AList.delete p (PriceTree (side_tree side b))
                else PriceTree (side_tree side b))"
        and ot: "other_tree side b1 = other_tree side b"
        and l1: "Len (lists h1 l) = int (length (remove1 ?x (mem l)))"
        and lo: "length (OrderMap (side_tree side b1)) < length (OrderMap (side_tree side b))"
        by blast
      let ?ts = "ts @ [?rec (Quantity (orders h ?x))]"
      have step: "ProcessOrderList side (Some l) q quote ts b h
                  = ProcessOrderList side (Some l) q quote ?ts b1 h1"
        using len qpos hd more r by (subst ProcessOrderList.simps) simp
      show ?thesis
      proof (cases "remove1 ?x (mem l) = []")
        case True
        with l1 have "ProcessOrderList side (Some l) q quote ?ts b1 h1 = Some (q, ?ts, b1, h1)"
          by (intro ProcessOrderList_stop) (simp add: OrderList_Length_def)
        with step w1 ot lo show ?thesis by auto
      next
        case False
        let ?mem1 = "mem(l := remove1 ?x (mem l))"
        have less1: "length (?mem1 l) < length (mem l)"
          using x by (simp add: length_remove1 Ls(1))
        have pl1: "(p, l) \<in> set (PriceTree (side_tree side b1))"
          using pt False pl by simp
        from less.hyps[OF less1 w1 pl1, of ?ts] obtain q' ts' b' h' mem' where
          rr: "ProcessOrderList side (Some l) q quote ?ts b1 h1 = Some (q', ts', b', h')"
          and w': "wf_book mem' b' h'" and ot': "other_tree side b' = other_tree side b1"
          and le: "length (OrderMap (side_tree side b')) \<le> length (OrderMap (side_tree side b1))"
          by blast
        from step rr w' ot ot' le lo show ?thesis
          by (intro exI[of _ q'] exI[of _ ts'] exI[of _ b'] exI[of _ h'] exI[of _ mem']) simp
      qed
    qed
  qed
qed

section \<open>The loops return\<close>

lemma wf_nonempty:
  assumes "wf_tree mem t h" "OrderMap t \<noteq> []"
  shows "PriceTree t \<noteq> []"
proof -
  from assms(2) obtain i x rest where "OrderMap t = (i, x) # rest"
    by (cases "OrderMap t") auto
  then have "map_of (OrderMap t) i = Some x" by simp
  from wf_ordersD(2)[OF wf_treeD(3)[OF assms(1)] this] show ?thesis
    by (rule tree_ordersE) auto
qed

lemma wf_best:
  assumes "wf_prices t h" "PriceTree t \<noteq> []"
  shows "MinPrice t h = fst (hd (PriceTree t))"
    and "MinPriceList t h = Some (snd (hd (PriceTree t)))"
    and "MaxPrice t h = fst (last (PriceTree t))"
    and "MaxPriceList t h = Some (snd (last (PriceTree t)))"
proof -
  note P = wf_pricesD[OF assms(1)]
  have dp: "0 < Depth t" using P(2) assms(2) by simp
  have hdm: "hd (PriceTree t) \<in> set (PriceTree t)" and lam: "last (PriceTree t) \<in> set (PriceTree t)"
    using assms(2) by simp_all
  obtain p0 l0 where h0: "hd (PriceTree t) = (p0, l0)" by (cases "hd (PriceTree t)")
  obtain p1 l1 where h1: "last (PriceTree t) = (p1, l1)" by (cases "last (PriceTree t)")
  have gmin: "GetMin (PriceTree t) = Some l0"
    using assms(2) h0 by (cases "PriceTree t") (auto simp: GetMin_def)
  obtain ys where ys: "PriceTree t = ys @ [(p1, l1)]"
    using assms(2) h1 by (metis append_butlast_last_id)
  have gmax: "GetMax (PriceTree t) = Some l1"
    unfolding ys by (simp add: GetMax_def)
  from P(4)[of p0 l0] hdm h0 have lp0: "LPrice (lists h l0) = p0" by simp
  from P(4)[of p1 l1] lam h1 have lp1: "LPrice (lists h l1) = p1" by simp
  show mn: "MinPrice t h = fst (hd (PriceTree t))"
    using dp gmin lp0 h0 by (simp add: MinPrice_def)
  show mx: "MaxPrice t h = fst (last (PriceTree t))"
    using dp gmax lp1 h1 by (simp add: MaxPrice_def)
  have "map_of (PriceTree t) p0 = Some l0" "map_of (PriceTree t) p1 = Some l1"
    using hdm lam h0 h1 by (simp_all add: sorted_map_of[OF P(1)])
  then show "MinPriceList t h = Some (snd (hd (PriceTree t)))"
    and "MaxPriceList t h = Some (snd (last (PriceTree t)))"
    using dp mn mx h0 h1 P(3) by (simp_all add: MinPriceList_def MaxPriceList_def)
qed

lemma Ask_neq_Bid: "Ask \<noteq> Bid"
  by (simp add: Ask_def Bid_def)

lemma opposing_Length_side:
  "side = Ask \<or> side = Bid \<Longrightarrow>
     opposing_Length side b = int (length (OrderMap (side_tree side b)))"
  using Ask_neq_Bid by (auto simp: opposing_Length_def side_tree_def OrderTree_Length_def)

lemma best_price_list_wf:
  assumes W: "wf_book mem b h" and s: "side = Ask \<or> side = Bid"
    and ne: "OrderMap (side_tree side b) \<noteq> []"
  shows "\<exists>p l. best_price_list side b h = Some l \<and> (p, l) \<in> set (PriceTree (side_tree side b))"
proof -
  from W have T: "wf_tree mem (side_tree side b) h"
    by (simp add: wf_book_side[of mem b h side])
  have pt: "PriceTree (side_tree side b) \<noteq> []" by (rule wf_nonempty[OF T ne])
  note B = wf_best[OF wf_treeD(1)[OF T] pt]
  have "best_price_list side b h =
          (if side = Ask then MinPriceList (side_tree side b) h else MaxPriceList (side_tree side b) h)"
    using s Ask_neq_Bid by (auto simp: best_price_list_def side_tree_def)
  then have "best_price_list side b h = Some (snd (hd (PriceTree (side_tree side b))))
           \<or> best_price_list side b h = Some (snd (last (PriceTree (side_tree side b))))"
    using B(2,4) by auto
  moreover have "hd (PriceTree (side_tree side b)) \<in> set (PriceTree (side_tree side b))"
    "last (PriceTree (side_tree side b)) \<in> set (PriceTree (side_tree side b))"
    using pt by simp_all
  ultimately show ?thesis
    by (metis prod.collapse)
qed

lemma market_loop_total:
  assumes W: "wf_book mem b h" and s: "side = Ask \<or> side = Bid"
  shows "\<exists>q' ts' b' h' mem'.
           market_loop side q quote ts b h = Some (q', ts', b', h')
           \<and> wf_book mem' b' h' \<and> other_tree side b' = other_tree side b
           \<and> (q' \<le> 0 \<or> OrderMap (side_tree side b') = [])"
  using W
proof (induction "length (OrderMap (side_tree side b))" arbitrary: mem b h ts q rule: less_induct)
  case less
  note W = less.prems
  show ?case
  proof (cases "0 < q \<and> OrderMap (side_tree side b) \<noteq> []")
    case False
    then have "\<not> (0 < q \<and> 0 < opposing_Length side b)"
      by (simp add: opposing_Length_side[OF s])
    then have c: "(0 < q \<and> 0 < opposing_Length side b) = False" by simp
    have "market_loop side q quote ts b h = Some (q, ts, b, h)"
      by (subst market_loop.simps) (simp only: c if_False)
    with W False show ?thesis by auto
  next
    case True
    then have c: "(0 < q \<and> 0 < opposing_Length side b) = True"
      by (simp add: opposing_Length_side[OF s])
    from best_price_list_wf[OF W s] True obtain p l where
      bl: "best_price_list side b h = Some l" and pl: "(p, l) \<in> set (PriceTree (side_tree side b))"
      by blast
    from ProcessOrderList_total[OF W pl, of q quote "[]"] True obtain q1 ts1 b1 h1 mem1 where
      r: "ProcessOrderList side (Some l) q quote [] b h = Some (q1, ts1, b1, h1)"
      and w1: "wf_book mem1 b1 h1" and ot: "other_tree side b1 = other_tree side b"
      and pr: "q1 \<le> 0 \<or> length (OrderMap (side_tree side b1)) < length (OrderMap (side_tree side b))"
      by blast
    have step: "market_loop side q quote ts b h = market_loop side q1 quote (ts @ ts1) b1 h1"
      by (subst market_loop.simps) (simp only: c if_True bl r option.case prod.case)
    show ?thesis
    proof (cases "q1 \<le> 0")
      case q0: True
      then have c1: "(0 < q1 \<and> 0 < opposing_Length side b1) = False" by simp
      have "market_loop side q1 quote (ts @ ts1) b1 h1 = Some (q1, ts @ ts1, b1, h1)"
        by (subst market_loop.simps) (simp only: c1 if_False)
      with step w1 ot q0 show ?thesis by auto
    next
      case False
      with pr have lt: "length (OrderMap (side_tree side b1)) < length (OrderMap (side_tree side b))"
        by simp
      from less.hyps[OF lt w1, of q1 "ts @ ts1"] obtain q' ts' b' h' mem' where
        "market_loop side q1 quote (ts @ ts1) b1 h1 = Some (q', ts', b', h')"
        "wf_book mem' b' h'" "other_tree side b' = other_tree side b1"
        "q' \<le> 0 \<or> OrderMap (side_tree side b') = []"
        by blast
      with step ot show ?thesis
        by (intro exI[of _ q'] exI[of _ ts'] exI[of _ b'] exI[of _ h'] exI[of _ mem']) simp
    qed
  qed
qed

lemma limit_loop_total:
  assumes W: "wf_book mem b h" and s: "side = Ask \<or> side = Bid"
  shows "\<exists>q' ts' b' h' mem'.
           limit_loop side p q quote ts b h = Some (q', ts', b', h')
           \<and> wf_book mem' b' h' \<and> other_tree side b' = other_tree side b
           \<and> (q' \<le> 0 \<or> OrderMap (side_tree side b') = [] \<or> \<not> price_gate side p b' h')"
  using W
proof (induction "length (OrderMap (side_tree side b))" arbitrary: mem b h ts q rule: less_induct)
  case less
  note W = less.prems
  show ?case
  proof (cases "0 < q \<and> OrderMap (side_tree side b) \<noteq> [] \<and> price_gate side p b h")
    case False
    then have "\<not> (0 < q \<and> 0 < opposing_Length side b \<and> price_gate side p b h)"
      by (simp add: opposing_Length_side[OF s])
    then have c: "(0 < q \<and> 0 < opposing_Length side b \<and> price_gate side p b h) = False" by simp
    have "limit_loop side p q quote ts b h = Some (q, ts, b, h)"
      by (subst limit_loop.simps) (simp only: c if_False)
    with W False show ?thesis by auto
  next
    case True
    then have c: "(0 < q \<and> 0 < opposing_Length side b \<and> price_gate side p b h) = True"
      by (simp add: opposing_Length_side[OF s])
    from best_price_list_wf[OF W s] True obtain p' l where
      bl: "best_price_list side b h = Some l" and pl: "(p', l) \<in> set (PriceTree (side_tree side b))"
      by blast
    from ProcessOrderList_total[OF W pl, of q quote "[]"] True obtain q1 ts1 b1 h1 mem1 where
      r: "ProcessOrderList side (Some l) q quote [] b h = Some (q1, ts1, b1, h1)"
      and w1: "wf_book mem1 b1 h1" and ot: "other_tree side b1 = other_tree side b"
      and pr: "q1 \<le> 0 \<or> length (OrderMap (side_tree side b1)) < length (OrderMap (side_tree side b))"
      by blast
    have step: "limit_loop side p q quote ts b h = limit_loop side p q1 quote (ts @ ts1) b1 h1"
      by (subst limit_loop.simps) (simp only: c if_True bl r option.case prod.case)
    show ?thesis
    proof (cases "q1 \<le> 0")
      case q0: True
      then have c1: "(0 < q1 \<and> 0 < opposing_Length side b1 \<and> price_gate side p b1 h1) = False" by simp
      have "limit_loop side p q1 quote (ts @ ts1) b1 h1 = Some (q1, ts @ ts1, b1, h1)"
        by (subst limit_loop.simps) (simp only: c1 if_False)
      with step w1 ot q0 show ?thesis by auto
    next
      case False
      with pr have lt: "length (OrderMap (side_tree side b1)) < length (OrderMap (side_tree side b))"
        by simp
      from less.hyps[OF lt w1, of q1 "ts @ ts1"] obtain q' ts' b' h' mem' where
        "limit_loop side p q1 quote (ts @ ts1) b1 h1 = Some (q', ts', b', h')"
        "wf_book mem' b' h'" "other_tree side b' = other_tree side b1"
        "q' \<le> 0 \<or> OrderMap (side_tree side b') = [] \<or> \<not> price_gate side p b' h'"
        by blast
      with step ot show ?thesis
        by (intro exI[of _ q'] exI[of _ ts'] exI[of _ b'] exI[of _ h'] exI[of _ mem']) simp
    qed
  qed
qed

lemma wf_book_prologue:
  assumes "wf_book mem b h"
  shows "wf_book mem (b\<lparr>Time := now, NextOrderID := n\<rparr>)
           (set_order quote (\<lambda>x. x\<lparr>UpdatedAt := now\<rparr>) h)"
proof -
  have c: "wf_tree mem t (set_order quote (\<lambda>x. x\<lparr>UpdatedAt := now\<rparr>) h)" if "wf_tree mem t h" for t
    by (rule wf_tree_cong[OF that]) (simp_all add: list_eqv_def order_eqv_def)
  from assms show ?thesis by (simp add: wf_book_def c)
qed

lemma market_order_returns:
  assumes ty: "Type (orders h quote) = Market" and W: "wf_book mem b h"
  shows "\<exists>trades b' h' mem'. ProcessOrder db now quote b h = Some (trades, EmptyOrder, b', h')
           \<and> wf_book mem' b' h'"
proof -
  let ?b2 = "b\<lparr>Time := now, NextOrderID := NextOrderID b + 1\<rparr>"
  let ?h1 = "set_order quote (\<lambda>x. x\<lparr>UpdatedAt := now\<rparr>) h"
  have W2: "wf_book mem ?b2 ?h1" by (rule wf_book_prologue[OF W])
  have po: "ProcessOrder db now quote b h =
      (case ProcessMarketOrder quote ?b2 ?h1 of None \<Rightarrow> None
       | Some (trades, b3, h3) \<Rightarrow> Some (trades, EmptyOrder, b3, h3))"
    using ty by (simp add: ProcessOrder_def UpdateTime_def Market_def Let_def)
  have "\<exists>trades b' h' mem'. ProcessMarketOrder quote ?b2 ?h1 = Some (trades, b', h') \<and> wf_book mem' b' h'"
  proof -
    consider (bid) "Side (orders ?h1 quote) = Bid"
      | (ask) "Side (orders ?h1 quote) \<noteq> Bid" "Side (orders ?h1 quote) = Ask"
      | (none) "Side (orders ?h1 quote) \<noteq> Bid" "Side (orders ?h1 quote) \<noteq> Ask"
      by blast
    then show ?thesis
    proof cases
      case bid
      from market_loop_total[OF W2, of Ask "Quantity (orders ?h1 quote)" quote "[]"]
      obtain q' ts' b' h' mem' where
        "market_loop Ask (Quantity (orders ?h1 quote)) quote [] ?b2 ?h1 = Some (q', ts', b', h')"
        "wf_book mem' b' h'" by blast
      with bid show ?thesis
        by (intro exI[of _ ts'] exI[of _ b'] exI[of _ h'] exI[of _ mem'])
           (simp add: ProcessMarketOrder_def Let_def)
    next
      case ask
      from market_loop_total[OF W2, of Bid "Quantity (orders ?h1 quote)" quote "[]"]
      obtain q' ts' b' h' mem' where
        "market_loop Bid (Quantity (orders ?h1 quote)) quote [] ?b2 ?h1 = Some (q', ts', b', h')"
        "wf_book mem' b' h'" by blast
      with ask show ?thesis
        by (intro exI[of _ ts'] exI[of _ b'] exI[of _ h'] exI[of _ mem'])
           (simp add: ProcessMarketOrder_def Let_def)
    next
      case none
      with W2 show ?thesis
        by (intro exI[of _ "[]"] exI[of _ ?b2] exI[of _ ?h1] exI[of _ mem])
           (simp add: ProcessMarketOrder_def Let_def)
    qed
  qed
  then show ?thesis unfolding po by auto
qed

section \<open>Market orders\<close>

lemma one_bid_market_sell:
  "case one_bid of
     None \<Rightarrow> False
   | Some (b, h) \<Rightarrow> Type (orders h 2) = Market \<and> ProcessOrder store_ok 11 2 b h \<noteq> None"
  by (simp add: one_bid_def one_bid_heap_def sample_defs book_defs tree_defs list_defs
        limit_loop.simps market_loop.simps ProcessOrderList.simps Let_def)

lemma market_order_safety:
  assumes ty: "Type (orders h quote) = Market"
  shows "(\<forall>trades res b' h'.
            ProcessOrder db now quote b h = Some (trades, res, b', h') \<longrightarrow>
              res = EmptyOrder
              \<and> tree_shrinks (Bids b) (Bids b') \<and> tree_shrinks (Asks b) (Asks b')
              \<and> (Side (orders h quote) = Bid \<longrightarrow> Bids b' = Bids b)
              \<and> (Side (orders h quote) = Ask \<longrightarrow> Asks b' = Asks b)
              \<and> nextList h' = nextList h)
       \<and> (Side (orders h quote) = Ask \<and> OrderMap (Bids b) = []
            \<or> Side (orders h quote) = Bid \<and> OrderMap (Asks b) = [] \<longrightarrow>
            ProcessOrder db now quote b h =
              Some ([], EmptyOrder, b\<lparr>Time := now, NextOrderID := NextOrderID b + 1\<rparr>,
                    set_order quote (\<lambda>x. x\<lparr>UpdatedAt := now\<rparr>) h))"
proof (intro conjI allI impI)
  fix trades res b' h'
  assume run: "ProcessOrder db now quote b h = Some (trades, res, b', h')"
  let ?b2 = "b\<lparr>Time := now, NextOrderID := NextOrderID b + 1\<rparr>"
  let ?h1 = "set_order quote (\<lambda>x. x\<lparr>UpdatedAt := now\<rparr>) h"
  have side_h1: "Side (orders ?h1 quote) = Side (orders h quote)"
    by (simp add: set_order_def)
  from run ty have m: "ProcessMarketOrder quote ?b2 ?h1 = Some (trades, b', h')" and res: "res = EmptyOrder"
    by (auto simp: ProcessOrder_def UpdateTime_def Market_def Let_def split: option.splits)
  show "res = EmptyOrder" by (rule res)
  consider (bid) "Side (orders h quote) = Bid" | (ask) "Side (orders h quote) \<noteq> Bid" "Side (orders h quote) = Ask"
    | (none) "Side (orders h quote) \<noteq> Bid" "Side (orders h quote) \<noteq> Ask"
    by blast
  then have "consumes (if Side (orders h quote) = Bid then Ask else if Side (orders h quote) = Ask then Bid else Ask) ?b2 b'
           \<and> nextList h' = nextList ?h1"
  proof cases
    case bid
    with m side_h1 obtain q where "market_loop Ask (Quantity (orders ?h1 quote)) quote [] ?b2 ?h1 = Some (q, trades, b', h')"
      by (auto simp: ProcessMarketOrder_def Let_def split: option.splits)
    from market_loop_consumes[OF this] bid show ?thesis by simp
  next
    case ask
    with m side_h1 obtain q where "market_loop Bid (Quantity (orders ?h1 quote)) quote [] ?b2 ?h1 = Some (q, trades, b', h')"
      by (auto simp: ProcessMarketOrder_def Let_def split: option.splits)
    from market_loop_consumes[OF this] ask show ?thesis by simp
  next
    case none
    with m side_h1 have "b' = ?b2" "h' = ?h1"
      by (auto simp: ProcessMarketOrder_def Let_def)
    with none show ?thesis by (simp add: consumes_refl)
  qed
  then have c: "tree_shrinks (Bids b) (Bids b') \<and> tree_shrinks (Asks b) (Asks b')
              \<and> (Side (orders h quote) = Bid \<longrightarrow> Bids b' = Bids b)
              \<and> (Side (orders h quote) = Ask \<longrightarrow> Asks b' = Asks b)
              \<and> nextList h' = nextList h"
    by (auto simp: consumes_def tree_shrinks_refl Ask_def Bid_def split: if_splits)
  from c show "tree_shrinks (Bids b) (Bids b')" by simp
  from c show "tree_shrinks (Asks b) (Asks b')" by simp
  from c show "Side (orders h quote) = Bid \<Longrightarrow> Bids b' = Bids b" by simp
  from c show "Side (orders h quote) = Ask \<Longrightarrow> Asks b' = Asks b" by simp
  from c show "nextList h' = nextList h" by simp
next
  assume e: "Side (orders h quote) = Ask \<and> OrderMap (Bids b) = []
            \<or> Side (orders h quote) = Bid \<and> OrderMap (Asks b) = []"
  let ?b2 = "b\<lparr>Time := now, NextOrderID := NextOrderID b + 1\<rparr>"
  let ?h1 = "set_order quote (\<lambda>x. x\<lparr>UpdatedAt := now\<rparr>) h"
  have side_h1: "Side (orders ?h1 quote) = Side (orders h quote)"
    by (simp add: set_order_def)
  from e have "ProcessMarketOrder quote ?b2 ?h1 = Some ([], ?b2, ?h1)"
    by (auto simp: ProcessMarketOrder_def side_h1 Let_def market_loop_empty opposing_Length_def
          OrderTree_Length_def Ask_def Bid_def)
  with ty show "ProcessOrder db now quote b h = Some ([], EmptyOrder, ?b2, ?h1)"
    by (simp add: ProcessOrder_def UpdateTime_def Market_def Let_def)
qed

lemma two_bids_wf:
  "case two_bids of
     None \<Rightarrow> False
   | Some (b, h) \<Rightarrow>
       wf_book ((\<lambda>_. [])(0 := [0, 1])) b h \<and> Type (orders h 2) = Market
       \<and> Side (orders h 2) = Ask"
  by (simp add: two_bids_def two_bids_heap_def sample_defs book_defs tree_defs list_defs
        limit_loop.simps Let_def wf_book_def wf_tree_def wf_prices_def wf_lists_def wf_orders_def
        tree_lists_def tree_orders_def dll_def)

lemma two_bids_market_sell:
  "case two_bids of
     None \<Rightarrow> False
   | Some (b, h) \<Rightarrow>
       map_option (\<lambda>(ts, r, b', h'). (map quantity ts, OrderMap (Bids b')))
         (ProcessOrder store_ok 12 2 b h) = Some ([4, 6], [])"
  by (simp add: two_bids_def two_bids_heap_def sample_defs book_defs tree_defs list_defs
        limit_loop.simps market_loop.simps ProcessOrderList.simps Let_def)

text \<open>
  C4.  A market order processed by \<open>ProcessOrder\<close> is never inserted.  Whenever the call
  returns, the residual is the empty holder, the maps and the price tree of both sides hold
  only entries they held before, the tree of the order's own side is unchanged and no
  price list was created.  Against an empty opposing tree the call returns at once with no
  trade, the book changed in \<open>Time\<close> and \<open>NextOrderID\<close> only.  On every well-formed book
  the call does return, with the empty holder and a well-formed book; and the loop of a
  market order ends with nothing left to trade or with the opposing tree empty, whatever
  is left being dropped.  In any state at all, an iteration that finds the opposing tree
  empty ends the loop there, with the quantity that is left.
\<close>

theorem market_order_never_rests:
  assumes ty: "Type (orders h quote) = Market"
  shows "(\<forall>trades res b' h'.
            ProcessOrder db now quote b h = Some (trades, res, b', h') \<longrightarrow>
              res = EmptyOrder
              \<and> tree_shrinks (Bids b) (Bids b') \<and> tree_shrinks (Asks b) (Asks b')
              \<and> (Side (orders h quote) = Bid \<longrightarrow> Bids b' = Bids b)
              \<and> (Side (orders h quote) = Ask \<longrightarrow> Asks b' = Asks b)
              \<and> nextList h' = nextList h)
       \<and> (Side (orders h quote) = Ask \<and> OrderMap (Bids b) = []
            \<or> Side (orders h quote) = Bid \<and> OrderMap (Asks b) = [] \<longrightarrow>
            ProcessOrder db now quote b h =
              Some ([], EmptyOrder, b\<lparr>Time := now, NextOrderID := NextOrderID b + 1\<rparr>,
                    set_order quote (\<lambda>x. x\<lparr>UpdatedAt := now\<rparr>) h))
       \<and> (\<forall>mem. wf_book mem b h \<longrightarrow>
            (\<exists>trades b' h' mem'.
                ProcessOrder db now quote b h = Some (trades, EmptyOrder, b', h')
                \<and> wf_book mem' b' h'))
       \<and> (\<forall>mem side q ts. wf_book mem b h \<and> (side = Ask \<or> side = Bid) \<longrightarrow>
            (\<exists>q' ts' b' h'.
                market_loop side q quote ts b h = Some (q', ts', b', h')
                \<and> (q' \<le> 0 \<or> OrderMap (side_tree side b') = [])))
       \<and> (\<forall>side q ts b1 h1. opposing_Length side b1 = 0 \<longrightarrow>
            market_loop side q quote ts b1 h1 = Some (q, ts, b1, h1))"
proof (intro conjI)
  show "\<forall>side q ts b1 h1. opposing_Length side b1 = 0 \<longrightarrow>
            market_loop side q quote ts b1 h1 = Some (q, ts, b1, h1)"
    by (simp add: market_loop_empty)
  show "\<forall>trades res b' h'.
            ProcessOrder db now quote b h = Some (trades, res, b', h') \<longrightarrow>
              res = EmptyOrder
              \<and> tree_shrinks (Bids b) (Bids b') \<and> tree_shrinks (Asks b) (Asks b')
              \<and> (Side (orders h quote) = Bid \<longrightarrow> Bids b' = Bids b)
              \<and> (Side (orders h quote) = Ask \<longrightarrow> Asks b' = Asks b)
              \<and> nextList h' = nextList h"
    using market_order_safety[OF ty, of db now b] by blast
  show "Side (orders h quote) = Ask \<and> OrderMap (Bids b) = []
            \<or> Side (orders h quote) = Bid \<and> OrderMap (Asks b) = [] \<longrightarrow>
            ProcessOrder db now quote b h =
              Some ([], EmptyOrder, b\<lparr>Time := now, NextOrderID := NextOrderID b + 1\<rparr>,
                    set_order quote (\<lambda>x. x\<lparr>UpdatedAt := now\<rparr>) h)"
    using market_order_safety[OF ty, of db now b] by blast
  show "\<forall>mem. wf_book mem b h \<longrightarrow>
            (\<exists>trades b' h' mem'.
                ProcessOrder db now quote b h = Some (trades, EmptyOrder, b', h')
                \<and> wf_book mem' b' h')"
    using market_order_returns[OF ty] by blast
  show "\<forall>mem side q ts. wf_book mem b h \<and> (side = Ask \<or> side = Bid) \<longrightarrow>
            (\<exists>q' ts' b' h'.
                market_loop side q quote ts b h = Some (q', ts', b', h')
                \<and> (q' \<le> 0 \<or> OrderMap (side_tree side b') = []))"
  proof (intro allI impI)
    fix mem side q ts
    assume a: "wf_book mem b h \<and> (side = Ask \<or> side = Bid)"
    then have W: "wf_book mem b h" and sd: "side = Ask \<or> side = Bid" by simp_all
    from market_loop_total[OF W sd, of q quote ts]
    show "\<exists>q' ts' b' h'.
                market_loop side q quote ts b h = Some (q', ts', b', h')
                \<and> (q' \<le> 0 \<or> OrderMap (side_tree side b') = [])"
      by blast
  qed
qed

theorem market_order_never_rests_witness:
  "\<exists>b h trades b' h' mem'. two_bids = Some (b, h) \<and> Type (orders h 2) = Market
      \<and> wf_book ((\<lambda>_. [])(0 := [0, 1])) b h
      \<and> ProcessOrder store_ok 12 2 b h = Some (trades, EmptyOrder, b', h')
      \<and> map quantity trades = [4, 6] \<and> OrderMap (Bids b') = [] \<and> Asks b' = Asks b
      \<and> wf_book mem' b' h'"
proof -
  obtain b h where s: "two_bids = Some (b, h)" "wf_book ((\<lambda>_. [])(0 := [0, 1])) b h"
      "Type (orders h 2) = Market" and sd: "Side (orders h 2) = Ask"
    using two_bids_wf by (auto split: option.splits)
  note main = market_order_never_rests [OF s(3), of store_ok 12 b]
  note returns = main [THEN conjunct2, THEN conjunct2, THEN conjunct1, rule_format, OF s(2)]
  then obtain trades b' h' mem' where
    run: "ProcessOrder store_ok 12 2 b h = Some (trades, EmptyOrder, b', h')"
    and w: "wf_book mem' b' h'"
    by blast
  note safe = main [THEN conjunct1, rule_format, OF run]
  with sd have a: "Asks b' = Asks b" by simp
  have "map_option (\<lambda>(ts, r, b', h'). (map quantity ts, OrderMap (Bids b')))
          (ProcessOrder store_ok 12 2 b h) = Some ([4, 6], [])"
    using two_bids_market_sell unfolding s(1) by simp
  then have t: "map quantity trades = [4, 6]" "OrderMap (Bids b') = []"
    unfolding run by simp_all
  show ?thesis
    by (rule exI[of _ b], rule exI[of _ h], rule exI[of _ trades], rule exI[of _ b'],
        rule exI[of _ h'], rule exI[of _ mem']) (intro conjI s run w a t)
qed

end
